theory Spec2Isabelle
  imports Complex_Main "HOL-Library.AList"
begin

section \<open>Numbers and small utilities\<close>

text \<open>
  JavaScript numbers are IEEE-754 doubles. A double is modelled by the real number it
  denotes, and the rounding of the exact result of an operation to the nearest double (a
  tie going to the even significand) by the function \<open>fl\<close>. It is applied after every
  operation where a property depends on the rounding: in the level of a cell, in the edge
  test of \<^verbatim>\<open>pointInRing\<close> and in the construction of a hexagon ring. There, a result beyond
  the largest double (\<^verbatim>\<open>Infinity\<close>), \<^verbatim>\<open>NaN\<close> and the sign of zero are not modelled. Elsewhere
  the operations are the exact ones: what is stated about them (counts, sums of weights that
  are small integers, the factor 0.25, the cell of a point as a function of the point) does
  not depend on the rounding. The values that are integers by construction (the result of
  \<^verbatim>\<open>Math.round\<close>, counters incremented by one) are \<open>int\<close> and \<open>nat\<close>. A value read from
  untyped input, which may be \<^verbatim>\<open>NaN\<close> or infinite, is a \<open>jsnum\<close>.
\<close>

datatype jsnum = Fin real | NaN | PosInf | NegInf

fun isFinite :: "jsnum \<Rightarrow> bool" where
  "isFinite (Fin _) = True"
| "isFinite _ = False"

fun finVal :: "jsnum \<Rightarrow> real" where
  "finVal (Fin x) = x"
| "finVal _ = 0"

text \<open>\<^verbatim>\<open>clamp(n, min, max) = Math.max(min, Math.min(max, n))\<close>\<close>

definition clamp :: "'a::linorder \<Rightarrow> 'a \<Rightarrow> 'a \<Rightarrow> 'a" where
  "clamp n lo hi = max lo (min hi n)"

text \<open>
  \<^verbatim>\<open>Math.round\<close>: the nearest integer, a tie going up. The argument is a double, and the
  result is exact.
\<close>

definition Math_round :: "real \<Rightarrow> int" where
  "Math_round x = \<lfloor>x + 1 / 2\<rfloor>"

text \<open>
  Rounding to the nearest double. A double is \<open>m * 2 ^ (e - 52)\<close> for an integer \<open>m\<close> with
  \<open>\<bar>m\<bar> < 2 ^ 53\<close> and an exponent \<open>e\<close> from -1022 to 1023; a real \<open>x\<close> with
  \<open>2 ^ e \<le> \<bar>x\<bar> < 2 ^ (e + 1)\<close> is rounded to a multiple of \<open>2 ^ (e - 52)\<close>, and one below
  \<open>2 ^ -1022\<close> to a multiple of \<open>2 ^ -1074\<close>.
\<close>

definition pow2 :: "int \<Rightarrow> real" where
  "pow2 e = (if 0 \<le> e then 2 ^ nat e else 1 / 2 ^ nat (- e))"

definition round_even :: "real \<Rightarrow> int" where
  "round_even x =
     (let f = \<lfloor>x\<rfloor>; d = x - of_int f
      in if d < 1 / 2 then f else if 1 / 2 < d then f + 1 else if even f then f else f + 1)"

definition fexp :: "real \<Rightarrow> int" where
  "fexp x = max \<lfloor>log 2 \<bar>x\<bar>\<rfloor> (- 1022)"

definition fl :: "real \<Rightarrow> real" where
  "fl x = (if x = 0 then 0
           else let u = pow2 (fexp x - 52) in real_of_int (round_even (x / u)) * u)"

text \<open>
  \<^verbatim>\<open>roundTo(n, d) = Math.round(n * 10 ** d) / 10 ** d\<close>: the product and the quotient are
  doubles.
\<close>

definition roundTo :: "real \<Rightarrow> nat \<Rightarrow> real" where
  "roundTo n d = (let p = fl (10 ^ d) in fl (real_of_int (Math_round (fl (n * p))) / p))"

section \<open>Resolution state machine\<close>

text \<open>\<^verbatim>\<open>type H3Resolution = 5 | 6 | 8\<close>\<close>

datatype H3Resolution = Res5 | Res6 | Res8

fun resNum :: "H3Resolution \<Rightarrow> int" where
  "resNum Res5 = 5"
| "resNum Res6 = 6"
| "resNum Res8 = 8"

definition CITY_ENTER_Z :: real where "CITY_ENTER_Z = 6"
definition CITY_EXIT_Z :: real where "CITY_EXIT_Z = 5"
definition TOWN_ENTER_Z :: real where "TOWN_ENTER_Z = 8"
definition TOWN_EXIT_Z :: real where "TOWN_EXIT_Z = 7"

definition getHexRes :: "real \<Rightarrow> H3Resolution" where
  "getHexRes z = (if z < CITY_ENTER_Z then Res5 else if z < TOWN_ENTER_Z then Res6 else Res8)"

fun getHexResWithHysteresis :: "real \<Rightarrow> H3Resolution \<Rightarrow> H3Resolution" where
  "getHexResWithHysteresis nextZoom Res8 =
     (if nextZoom < TOWN_EXIT_Z then (if nextZoom \<ge> CITY_ENTER_Z then Res6 else Res5)
      else Res8)"
| "getHexResWithHysteresis nextZoom Res6 =
     (if nextZoom \<ge> TOWN_ENTER_Z then Res8
      else if nextZoom < CITY_EXIT_Z then Res5
      else Res6)"
| "getHexResWithHysteresis nextZoom Res5 =
     (if nextZoom \<ge> TOWN_ENTER_Z then Res8
      else if nextZoom \<ge> CITY_ENTER_Z then Res6
      else Res5)"

section \<open>Level from the weighted estimate\<close>

definition GREED_MAX_BY_RES :: "int \<rightharpoonup> real" where
  "GREED_MAX_BY_RES = [5 \<mapsto> 2500, 6 \<mapsto> 900, 8 \<mapsto> 300]"

text \<open>The quotient and the product are doubles.\<close>

definition greedLevelFromEstimated :: "real \<Rightarrow> int \<Rightarrow> int" where
  "greedLevelFromEstimated estimated res =
     (let mx = (case GREED_MAX_BY_RES res of Some m \<Rightarrow> m | None \<Rightarrow> 1000);
          v = Math_round (fl (fl (max 0 estimated / mx) * 100))
      in clamp v 0 100)"

section \<open>Projection and hexagon rings\<close>

definition R :: real where "R = 6378137"

text \<open>\<^verbatim>\<open>HEX_COVERAGE\<close> (must be exactly 1.0) and \<^verbatim>\<open>VTX_DECIMALS\<close>.\<close>

definition HEX_COVERAGE :: real where "HEX_COVERAGE = 1"
definition VTX_DECIMALS :: nat where "VTX_DECIMALS = 8"

type_synonym pt = "real \<times> real"
type_synonym ring = "pt list"

definition lonLatToMercator :: "real \<Rightarrow> real \<Rightarrow> real \<times> real" where
  "lonLatToMercator lon lat =
     (let x = (lon * pi * R) / 180;
          y = ln (tan (pi / 4 + (lat * pi) / 360)) * R
      in (x, y))"

text \<open>
  \<^verbatim>\<open>Math.cos\<close>, \<^verbatim>\<open>Math.sin\<close>, \<^verbatim>\<open>Math.exp\<close> and \<^verbatim>\<open>Math.atan\<close> are implementation-approximated:
  the language fixes no value for them. Where a ring is built they are the fields of a
  record, a parameter. \<^verbatim>\<open>Math.PI\<close> is the double nearest to \<open>\<pi>\<close>.
\<close>

record jsMath =
  m_cos :: "real \<Rightarrow> real"
  m_sin :: "real \<Rightarrow> real"
  m_exp :: "real \<Rightarrow> real"
  m_atan :: "real \<Rightarrow> real"

definition Math_PI :: real where "Math_PI = 884279719003555 / 2 ^ 48"

definition mercatorToLonLat :: "jsMath \<Rightarrow> real \<Rightarrow> real \<Rightarrow> real \<times> real" where
  "mercatorToLonLat M x y =
     (let lon = fl (fl (x * 180) / fl (Math_PI * R));
          lat = fl (fl (fl (m_atan M (m_exp M (fl (y / R))) * 360) / Math_PI) - 90)
      in (lon, lat))"

fun radiusMetersForResolution :: "H3Resolution \<Rightarrow> real" where
  "radiusMetersForResolution Res5 = 23000"
| "radiusMetersForResolution Res6 = 11000"
| "radiusMetersForResolution Res8 = 2200"

text \<open>
  The body of the loop of \<^verbatim>\<open>makeHexRingMercator\<close> up to the conversion: the \<open>k\<close>-th vertex
  in the projected plane, for the radius \<open>r = radiusM * HEX_COVERAGE\<close>.
\<close>

definition hexVertexMercator :: "jsMath \<Rightarrow> real \<Rightarrow> real \<Rightarrow> real \<Rightarrow> nat \<Rightarrow> real \<times> real" where
  "hexVertexMercator M cx cy r k =
     (let ang = fl (fl (fl (30 + fl (60 * real k)) * Math_PI) / 180);
          x = fl (cx + fl (r * m_cos M ang));
          y = fl (cy + fl (r * m_sin M ang))
      in (x, y))"

definition makeHexRingMercator :: "jsMath \<Rightarrow> real \<Rightarrow> real \<Rightarrow> real \<Rightarrow> ring" where
  "makeHexRingMercator M cx cy radiusM =
     (let r = fl (radiusM * HEX_COVERAGE);
          pts = map (\<lambda>k. let (x, y) = hexVertexMercator M cx cy r k;
                              (lon, lat) = mercatorToLonLat M x y
                          in (roundTo lon VTX_DECIMALS, roundTo lat VTX_DECIMALS)) [0..<6]
      in pts @ [pts ! 0])"

text \<open>The library whose functions return the double nearest to the exact value.\<close>

definition nearestMath :: jsMath where
  "nearestMath = \<lparr>m_cos = (\<lambda>x. fl (cos x)), m_sin = (\<lambda>x. fl (sin x)),
                  m_exp = (\<lambda>x. fl (exp x)), m_atan = (\<lambda>x. fl (arctan x))\<rparr>"

section \<open>Point in polygon\<close>

text \<open>
  The test of one edge in \<^verbatim>\<open>pointInRing\<close>, from vertex \<open>j\<close> to vertex \<open>i\<close>; every difference,
  the product, the quotient and the sums are doubles.
\<close>

definition edgeIntersect :: "pt \<Rightarrow> pt \<Rightarrow> pt \<Rightarrow> bool" where
  "edgeIntersect p vi vj =
     (let x = fst p; y = snd p; xi = fst vi; yi = snd vi; xj = fst vj; yj = snd vj
      in ((yi > y) \<noteq> (yj > y))
         \<and> x < fl (fl (fl (fl (xj - xi) * fl (y - yi)) / fl (fl (yj - yi) + 0)) + xi))"

text \<open>
  \<^verbatim>\<open>for (let i = 0, j = ring.length - 1; i < ring.length; j = i++)\<close>: the indices still to
  visit, the current \<open>j\<close> and the flag.
\<close>

fun ringLoop :: "pt \<Rightarrow> ring \<Rightarrow> nat list \<Rightarrow> nat \<Rightarrow> bool \<Rightarrow> bool" where
  "ringLoop p ring [] j inside = inside"
| "ringLoop p ring (i # rest) j inside =
     ringLoop p ring rest i
       (if edgeIntersect p (ring ! i) (ring ! j) then \<not> inside else inside)"

definition pointInRing :: "pt \<Rightarrow> ring \<Rightarrow> bool" where
  "pointInRing p ring = ringLoop p ring [0..<length ring] (length ring - 1) False"

datatype geometry = Polygon "ring list" | MultiPolygon "ring list list" | OtherGeometry

text \<open>\<^verbatim>\<open>coordinates?.[0] ?? []\<close>\<close>

fun outerRing :: "ring list \<Rightarrow> ring" where
  "outerRing [] = []"
| "outerRing (r # _) = r"

fun inSomeHole :: "pt \<Rightarrow> ring list \<Rightarrow> bool" where
  "inSomeHole p [] = False"
| "inSomeHole p (h # hs) = (if pointInRing p h then True else inSomeHole p hs)"

fun multiPolygonLoop :: "pt \<Rightarrow> ring list list \<Rightarrow> bool" where
  "multiPolygonLoop p [] = False"
| "multiPolygonLoop p (poly # polys) =
     (let outer = outerRing poly in
      if outer = [] then multiPolygonLoop p polys
      else if \<not> pointInRing p outer then multiPolygonLoop p polys
      else if \<not> inSomeHole p (tl poly) then True
      else multiPolygonLoop p polys)"

fun pointInGeoJsonPolygon :: "pt \<Rightarrow> geometry option \<Rightarrow> bool" where
  "pointInGeoJsonPolygon p None = False"
| "pointInGeoJsonPolygon p (Some (Polygon coords)) =
     (let outer = outerRing coords in
      if outer = [] then False
      else if \<not> pointInRing p outer then False
      else \<not> inSomeHole p (tl coords))"
| "pointInGeoJsonPolygon p (Some (MultiPolygon coords)) = multiPolygonLoop p coords"
| "pointInGeoJsonPolygon p (Some OtherGeometry) = False"

section \<open>Tiers\<close>

datatype PresenceTier = minimal | low | moderate | notable | significant

definition tierForEstimate :: "real \<Rightarrow> PresenceTier" where
  "tierForEstimate estimate =
     (if estimate \<ge> 16 then significant
      else if estimate \<ge> 8 then notable
      else if estimate \<ge> 4 then moderate
      else if estimate \<ge> 2 then low
      else minimal)"

definition tierForCount :: "nat \<Rightarrow> PresenceTier" where
  "tierForCount count =
     (if count \<ge> 16 then significant
      else if count \<ge> 8 then notable
      else if count \<ge> 4 then moderate
      else if count \<ge> 2 then low
      else minimal)"

section \<open>Offset-grid aggregation\<close>

text \<open>The decimal rendering of an integer in a template string.\<close>

definition digitChar :: "nat \<Rightarrow> char" where
  "digitChar d = ''0123456789'' ! d"

fun showNat :: "nat \<Rightarrow> string" where
  "showNat n = (if n < 10 then [digitChar n] else showNat (n div 10) @ [digitChar (n mod 10)])"

declare showNat.simps [simp del]

definition showInt :: "int \<Rightarrow> string" where
  "showInt i = (if i < 0 then CHR ''-'' # showNat (nat (- i)) else showNat (nat i))"

text \<open>\<^verbatim>\<open>`${resolution}:${row}:${col}`\<close>\<close>

definition gridCellId :: "H3Resolution \<Rightarrow> int \<Rightarrow> int \<Rightarrow> string" where
  "gridCellId resolution row col =
     showInt (resNum resolution) @ '':'' @ showInt row @ '':'' @ showInt col"

record CellBucket =
  row :: int
  col :: int
  count :: nat

record HexFeature =
  hf_tier :: PresenceTier
  hf_cellId :: string
  hf_count :: nat
  hf_ring :: ring

definition K_ANONYMITY_THRESHOLD :: nat where "K_ANONYMITY_THRESHOLD = 3"

definition isKAnonymous :: "nat \<Rightarrow> bool" where
  "isKAnonymous n = (n \<ge> K_ANONYMITY_THRESHOLD)"

fun minCountForResolution :: "H3Resolution \<Rightarrow> nat" where
  "minCountForResolution Res8 = 2"
| "minCountForResolution Res6 = 2"
| "minCountForResolution Res5 = 1"

definition stepX :: "H3Resolution \<Rightarrow> real" where
  "stepX resolution = sqrt 3 * radiusMetersForResolution resolution"

definition stepY :: "H3Resolution \<Rightarrow> real" where
  "stepY resolution = 1.5 * radiusMetersForResolution resolution"

definition offsetX :: "H3Resolution \<Rightarrow> real" where
  "offsetX resolution = stepX resolution / 2"

text \<open>The row and column that the first loop of \<^verbatim>\<open>aggregatePointsToHexFC\<close> gives a point.\<close>

definition pointRowCol :: "H3Resolution \<Rightarrow> pt \<Rightarrow> int \<times> int" where
  "pointRowCol resolution p =
     (let (x, y) = lonLatToMercator (fst p) (snd p);
          row = Math_round (y / stepY resolution);
          xRowOffset = (if row mod 2 = 0 then 0 else offsetX resolution);
          col = Math_round ((x - xRowOffset) / stepX resolution)
      in (row, col))"

definition pointCellId :: "H3Resolution \<Rightarrow> pt \<Rightarrow> string" where
  "pointCellId resolution p = (let (row, col) = pointRowCol resolution p in gridCellId resolution row col)"

text \<open>
  The \<^verbatim>\<open>Map\<close> of buckets is an association list in insertion order; \<open>AList.update\<close> keeps
  the place of a key that is already there, as \<^verbatim>\<open>Map.prototype.set\<close> does.
\<close>

definition addPoint :: "H3Resolution \<Rightarrow> pt \<Rightarrow> (string \<times> CellBucket) list \<Rightarrow> (string \<times> CellBucket) list" where
  "addPoint resolution p cells =
     (let (row, col) = pointRowCol resolution p;
          cellId = gridCellId resolution row col
      in case map_of cells cellId of
           Some prev \<Rightarrow> AList.update cellId (prev\<lparr>count := count prev + 1\<rparr>) cells
         | None \<Rightarrow> AList.update cellId \<lparr>row = row, col = col, count = 1\<rparr> cells)"

definition binPoints :: "pt list \<Rightarrow> H3Resolution \<Rightarrow> (string \<times> CellBucket) list" where
  "binPoints points resolution = fold (addPoint resolution) points []"

definition bucketFeature :: "H3Resolution \<Rightarrow> string \<times> CellBucket \<Rightarrow> HexFeature" where
  "bucketFeature resolution e =
     (let cellId = fst e; cell = snd e;
          radiusM = radiusMetersForResolution resolution;
          xRowOffset = (if row cell mod 2 = 0 then 0 else offsetX resolution);
          cx = real_of_int (col cell) * stepX resolution + xRowOffset;
          cy = real_of_int (row cell) * stepY resolution
      in \<lparr>hf_tier = tierForCount (count cell), hf_cellId = cellId, hf_count = count cell,
          hf_ring = makeHexRingMercator nearestMath cx cy radiusM\<rparr>)"

fun emitFeatures :: "H3Resolution \<Rightarrow> (string \<times> CellBucket) list \<Rightarrow> HexFeature list" where
  "emitFeatures resolution [] = []"
| "emitFeatures resolution (e # es) =
     (if count (snd e) < minCountForResolution resolution then emitFeatures resolution es
      else bucketFeature resolution e # emitFeatures resolution es)"

definition aggregatePointsToHexFC :: "pt list \<Rightarrow> H3Resolution \<Rightarrow> HexFeature list" where
  "aggregatePointsToHexFC points resolution = emitFeatures resolution (binPoints points resolution)"

section \<open>Points of interest\<close>

datatype PoiKind = synagogue | jcc | kosher | mikveh | jewish_school | jewish_camp

definition ALL_POI_KINDS :: "PoiKind list" where
  "ALL_POI_KINDS = [synagogue, jcc, kosher, mikveh, jewish_school, jewish_camp]"

fun POI_ESTIMATE_WEIGHT :: "PoiKind \<Rightarrow> real" where
  "POI_ESTIMATE_WEIGHT synagogue = 250"
| "POI_ESTIMATE_WEIGHT jcc = 150"
| "POI_ESTIMATE_WEIGHT kosher = 40"
| "POI_ESTIMATE_WEIGHT mikveh = 80"
| "POI_ESTIMATE_WEIGHT jewish_school = 200"
| "POI_ESTIMATE_WEIGHT jewish_camp = 300"

text \<open>
  A point feature as the engine reads it: \<^verbatim>\<open>properties.kind\<close>, \<^verbatim>\<open>properties.type\<close> and
  \<^verbatim>\<open>geometry.coordinates\<close> (a missing geometry, or coordinates that are no array, is the
  empty list: both are skipped as a list shorter than two is).
\<close>

record poi_feature =
  kind :: "string option"
  ptype :: "string option"
  coordinates :: "jsnum list"

text \<open>
  The string functions of \<^verbatim>\<open>normalizePoiKind\<close>, on the ASCII range: \<^verbatim>\<open>\s\<close> is the space and
  the control characters 9 to 13, and \<^verbatim>\<open>toLowerCase\<close> moves A..Z to a..z.
\<close>

definition isSpace :: "char \<Rightarrow> bool" where
  "isSpace c = (let n = (of_char c :: nat) in n = 32 \<or> (9 \<le> n \<and> n \<le> 13))"

definition trim :: "string \<Rightarrow> string" where
  "trim s = rev (dropWhile isSpace (rev (dropWhile isSpace s)))"

definition toLowerChar :: "char \<Rightarrow> char" where
  "toLowerChar c = (let n = (of_char c :: nat) in if 65 \<le> n \<and> n \<le> 90 then char_of (n + 32) else c)"

definition toLowerCase :: "string \<Rightarrow> string" where
  "toLowerCase s = map toLowerChar s"

text \<open>\<^verbatim>\<open>.replace(/[\s-]+/g, "_")\<close>: the flag says that the previous character was replaced.\<close>

fun replaceSeparators :: "bool \<Rightarrow> string \<Rightarrow> string" where
  "replaceSeparators inRun [] = []"
| "replaceSeparators inRun (c # cs) =
     (if isSpace c \<or> c = CHR ''-''
      then (if inRun then replaceSeparators True cs else CHR ''_'' # replaceSeparators True cs)
      else c # replaceSeparators False cs)"

definition normalizePoiKind :: "string option \<Rightarrow> PoiKind option" where
  "normalizePoiKind raw =
     (let v = replaceSeparators False
                (toLowerCase (trim (case raw of None \<Rightarrow> [] | Some s \<Rightarrow> s)))
      in if v = [] then None
         else if v = ''synagogue'' \<or> v = ''shul'' then Some synagogue
         else if v = ''jcc'' \<or> v = ''jewish_community_center''
               \<or> v = ''jewish_community_centre'' \<or> v = ''jewish_community_ctr''
               \<or> v = ''jewish_community_ctr.'' then Some jcc
         else if v = ''kosher'' \<or> v = ''kosher_amenity'' then Some kosher
         else if v = ''mikveh'' \<or> v = ''mikvah'' then Some mikveh
         else if v = ''jewish_school'' \<or> v = ''school'' \<or> v = ''yeshiva'' then Some jewish_school
         else if v = ''jewish_camp'' \<or> v = ''camp'' \<or> v = ''summer_camp'' then Some jewish_camp
         else None)"

definition createEmptyPoiCounts :: "PoiKind \<Rightarrow> nat" where
  "createEmptyPoiCounts = (\<lambda>_. 0)"

definition getEstimatedFromPoiCounts :: "(PoiKind \<Rightarrow> nat) \<Rightarrow> int" where
  "getEstimatedFromPoiCounts counts =
     (let total = fold (\<lambda>k total. total + real (counts k) * POI_ESTIMATE_WEIGHT k) ALL_POI_KINDS 0;
          rounded = Math_round total
      in if rounded > 0 then rounded else 0)"

section \<open>Global-index binning\<close>

text \<open>
  The functions of the library \<^verbatim>\<open>h3-js\<close> that the engine calls are parameters of the model:
  \<^verbatim>\<open>latLngToCell(lat, lng, res)\<close>, \<^verbatim>\<open>gridDisk(cell, k)\<close>, \<^verbatim>\<open>cellToBoundary(cell, true)\<close> (a ring of
  [lng, lat] pairs), and the three area functions, each of which the installed version of
  the library may lack.
\<close>

record h3js =
  latLngToCell :: "real \<Rightarrow> real \<Rightarrow> int \<Rightarrow> string"
  gridDisk :: "string \<Rightarrow> nat \<Rightarrow> string list"
  cellToBoundary :: "string \<Rightarrow> ring"
  cellArea :: "(string \<Rightarrow> jsnum) option"
  cellAreaKm2 :: "(string \<Rightarrow> jsnum) option"
  cellAreaM2 :: "(string \<Rightarrow> jsnum) option"

definition MAX_SPARSE_HEX_CELLS :: nat where "MAX_SPARSE_HEX_CELLS = 120000"

fun fallbackByResolution :: "H3Resolution \<Rightarrow> real" where
  "fallbackByResolution Res5 = 252"
| "fallbackByResolution Res6 = 36"
| "fallbackByResolution Res8 = 0.74"

definition tryArea :: "(string \<Rightarrow> jsnum) option \<Rightarrow> string \<Rightarrow> real option" where
  "tryArea fn cell =
     (case fn of
        None \<Rightarrow> None
      | Some g \<Rightarrow> (let v = g cell in if isFinite v \<and> finVal v > 0 then Some (finVal v) else None))"

definition getCellAreaKm2 :: "h3js \<Rightarrow> string \<Rightarrow> H3Resolution \<Rightarrow> real" where
  "getCellAreaKm2 h cell resolution =
     (case tryArea (cellArea h) cell of
        Some v \<Rightarrow> v
      | None \<Rightarrow>
          (case tryArea (cellAreaKm2 h) cell of
             Some v \<Rightarrow> v
           | None \<Rightarrow>
               (case tryArea (cellAreaM2 h) cell of
                  Some v \<Rightarrow> v / 1000000
                | None \<Rightarrow> fallbackByResolution resolution)))"

definition percentile95 :: "real list \<Rightarrow> real" where
  "percentile95 vals =
     (if vals = [] then 0
      else let sorted = sort vals;
               idx = nat \<lfloor>0.95 * real (length sorted - 1)\<rfloor>
           in if idx < length sorted then sorted ! idx else 0)"

text \<open>\<^verbatim>\<open>map.get(key) ?? 0\<close>\<close>

definition getOr0 :: "(string \<times> real) list \<Rightarrow> string \<Rightarrow> real" where
  "getOr0 m k = (case map_of m k of Some v \<Rightarrow> v | None \<Rightarrow> 0)"

text \<open>The body of the first loop of \<^verbatim>\<open>buildSparseHexesFromPois\<close>.\<close>

definition addCenter :: "h3js \<Rightarrow> H3Resolution \<Rightarrow> poi_feature \<Rightarrow> (string \<times> real) list \<Rightarrow> (string \<times> real) list" where
  "addCenter h resolution f centerEstimates =
     (if kind f \<noteq> Some ''synagogue'' then centerEstimates
      else let coords = coordinates f in
        if length coords < 2 then centerEstimates
        else let lon = coords ! 0; lat = coords ! 1 in
          if \<not> isFinite lon \<or> \<not> isFinite lat then centerEstimates
          else let cell = latLngToCell h (finVal lat) (finVal lon) (resNum resolution)
               in AList.update cell (getOr0 centerEstimates cell + 1) centerEstimates)"

definition centerEstimatesOf :: "h3js \<Rightarrow> poi_feature list \<Rightarrow> H3Resolution \<Rightarrow> (string \<times> real) list" where
  "centerEstimatesOf h features resolution = fold (addCenter h resolution) features []"

text \<open>The halo loop: one center cell, then one neighbour of it.\<close>

definition haloNeighbor :: "string \<Rightarrow> real \<Rightarrow> string \<Rightarrow> (string \<times> real) list \<Rightarrow> (string \<times> real) list" where
  "haloNeighbor cell haloEstimate neighbor estimates =
     (if neighbor = cell then estimates
      else let prev = getOr0 estimates neighbor
           in AList.update neighbor (max prev haloEstimate) estimates)"

definition haloCell :: "h3js \<Rightarrow> string \<times> real \<Rightarrow> (string \<times> real) list \<Rightarrow> (string \<times> real) list" where
  "haloCell h e estimates =
     (let cell = fst e; centerEstimate = snd e; haloEstimate = centerEstimate * 0.25
      in if haloEstimate \<le> 0 then estimates
         else fold (haloNeighbor cell haloEstimate) (gridDisk h cell 1) estimates)"

definition haloEstimates :: "h3js \<Rightarrow> (string \<times> real) list \<Rightarrow> (string \<times> real) list" where
  "haloEstimates h centerEstimates = fold (haloCell h) centerEstimates centerEstimates"

record sparse_row =
  r_cell :: string
  r_boundary :: ring
  r_estimate :: real
  r_areaKm2 :: real
  r_density :: real
  r_tier :: PresenceTier

text \<open>One entry of the third loop, after the cap test: the row pushed, if any.\<close>

definition sparseRow :: "h3js \<Rightarrow> H3Resolution \<Rightarrow> string \<times> real \<Rightarrow> sparse_row option" where
  "sparseRow h resolution e =
     (let cell = fst e; estimateRaw = snd e;
          estimate = max 0 (min 10000 estimateRaw)
      in if estimate \<le> 0 then None
         else let boundary = cellToBoundary h cell in
           if length boundary < 4 then None
           else let area = getCellAreaKm2 h cell resolution;
                    densityRaw = (if estimate > 0 \<and> area > 0 then estimate / area else 0);
                    dens = (if densityRaw > 0 then densityRaw else 0)
                in Some \<lparr>r_cell = cell, r_boundary = boundary, r_estimate = estimate,
                         r_areaKm2 = area, r_density = dens, r_tier = tierForEstimate estimate\<rparr>)"

text \<open>The third loop: the entries still to visit and \<^verbatim>\<open>processed\<close>; the rows and \<^verbatim>\<open>capped\<close>.\<close>

fun sparseRowsLoop :: "h3js \<Rightarrow> H3Resolution \<Rightarrow> (string \<times> real) list \<Rightarrow> nat \<Rightarrow> sparse_row list \<times> bool" where
  "sparseRowsLoop h resolution [] processed = ([], False)"
| "sparseRowsLoop h resolution (e # rest) processed =
     (if processed \<ge> MAX_SPARSE_HEX_CELLS then ([], True)
      else let rc = sparseRowsLoop h resolution rest (processed + 1)
           in (case sparseRow h resolution e of
                 None \<Rightarrow> rc
               | Some r \<Rightarrow> (r # fst rc, snd rc)))"

text \<open>
  A cell feature, as the sparse builder makes it and the annotation completes it. The
  properties \<^verbatim>\<open>h3\<close>, \<^verbatim>\<open>hexId\<close> and \<^verbatim>\<open>id\<close> of the source repeat \<^verbatim>\<open>cellId\<close>, and \<^verbatim>\<open>estimate\<close> repeats
  \<^verbatim>\<open>estimated\<close>; \<^verbatim>\<open>poiCounts\<close> is absent before the annotation.
\<close>

record hex_feature =
  fid :: "string option"
  cellId :: "string option"
  estimated :: real
  greedLevel :: real
  areaKm2 :: real
  density :: real
  score :: real
  estimateSmoothed :: real
  tier :: PresenceTier
  resolution :: "int option"
  geometry :: "geometry option"
  poiCounts :: "(PoiKind \<Rightarrow> nat) option"

definition sparseFeature :: "H3Resolution \<Rightarrow> real \<Rightarrow> sparse_row \<Rightarrow> hex_feature" where
  "sparseFeature res p95 r =
     (let sc = (if p95 > 0 then clamp (r_density r / p95) 0 1 else 0);
          lvl = greedLevelFromEstimated (r_estimate r) (resNum res)
      in \<lparr>fid = Some (r_cell r), cellId = Some (r_cell r), estimated = r_estimate r,
          greedLevel = real_of_int lvl, areaKm2 = r_areaKm2 r, density = r_density r,
          score = sc, estimateSmoothed = r_estimate r, tier = r_tier r,
          resolution = Some (resNum res), geometry = Some (Polygon [r_boundary r]),
          poiCounts = None\<rparr>)"

text \<open>The argument of \<^verbatim>\<open>console.warn\<close> when the cap is reached.\<close>

record cap_warning =
  w_resolution :: H3Resolution
  w_maxCells :: nat
  w_candidateCells :: nat
  w_emittedCells :: nat

text \<open>The value that \<^verbatim>\<open>buildSparseHexesFromPois\<close> returns: \<^verbatim>\<open>{ fc, p95 }\<close>.\<close>

record sparse_result =
  fc :: "hex_feature list"
  p95 :: real

text \<open>
  \<^verbatim>\<open>buildSparseHexesFromPois\<close>: the returned value and what the call writes to the console.
\<close>

definition buildSparseHexesFromPois :: "h3js \<Rightarrow> poi_feature list \<Rightarrow> H3Resolution \<Rightarrow> sparse_result \<times> cap_warning list" where
  "buildSparseHexesFromPois h features res =
     (if features = [] then (\<lparr>fc = [], p95 = 1\<rparr>, [])
      else let centerEstimates = centerEstimatesOf h features res in
        if centerEstimates = [] then (\<lparr>fc = [], p95 = 1\<rparr>, [])
        else let estimates = haloEstimates h centerEstimates;
                 rc = sparseRowsLoop h res estimates 0;
                 rows = fst rc; capped = snd rc;
                 console = (if capped
                            then [\<lparr>w_resolution = res, w_maxCells = MAX_SPARSE_HEX_CELLS,
                                   w_candidateCells = length estimates,
                                   w_emittedCells = length rows\<rparr>]
                            else []);
                 nonzeroDensities = filter (\<lambda>d. d > 0) (map r_density rows);
                 p = percentile95 nonzeroDensities;
                 p95v = (if p \<le> 0 then 1 else p)
             in (\<lparr>fc = map (sparseFeature res p95v) rows, p95 = p95v\<rparr>, console))"

section \<open>Annotation cache\<close>

record HexAnnotationCacheEntry =
  e_poiVersion :: string
  e_poiCounts :: "PoiKind \<Rightarrow> nat"
  e_estimated :: real
  e_greedLevel :: jsnum

type_synonym annotation_cache = "string \<rightharpoonup> HexAnnotationCacheEntry"

text \<open>The first loop of \<^verbatim>\<open>annotateHexesWithPois\<close>: the points that are kept, with their kind.\<close>

fun poiFeaturesOf :: "poi_feature list \<Rightarrow> (pt \<times> PoiKind) list" where
  "poiFeaturesOf [] = []"
| "poiFeaturesOf (f # fs) =
     (let coords = coordinates f in
      if length coords < 2 then poiFeaturesOf fs
      else let lon = coords ! 0; lat = coords ! 1 in
        if \<not> isFinite lon \<or> \<not> isFinite lat then poiFeaturesOf fs
        else (case (case normalizePoiKind (kind f) of
                      Some k \<Rightarrow> Some k
                    | None \<Rightarrow> normalizePoiKind (ptype f)) of
                None \<Rightarrow> poiFeaturesOf fs
              | Some k \<Rightarrow> ((finVal lon, finVal lat), k) # poiFeaturesOf fs))"

text \<open>
  \<^verbatim>\<open>String(cellId ?? id ?? "") || JSON.stringify(geometry?.coordinates?.[0]?.[0] ?? [])\<close>; the
  rendering of the first coordinate by \<^verbatim>\<open>JSON.stringify\<close> is a parameter.
\<close>

definition annotationCellId :: "(geometry option \<Rightarrow> string) \<Rightarrow> hex_feature \<Rightarrow> string" where
  "annotationCellId stringify f =
     (let s = (case cellId f of
                 Some c \<Rightarrow> c
               | None \<Rightarrow> (case fid f of Some i \<Rightarrow> i | None \<Rightarrow> []))
      in if s \<noteq> [] then s else stringify (geometry f))"

definition cacheKeyOf :: "string \<Rightarrow> string \<Rightarrow> string" where
  "cacheKeyOf cell poiVersion = cell @ '':'' @ poiVersion"

definition countPoisInside :: "(pt \<times> PoiKind) list \<Rightarrow> geometry option \<Rightarrow> (PoiKind \<Rightarrow> nat)" where
  "countPoisInside pois geom =
     (case geom of
        None \<Rightarrow> createEmptyPoiCounts
      | Some g \<Rightarrow>
          fold (\<lambda>poi counts.
                  if pointInGeoJsonPolygon (fst poi) (Some g)
                  then counts(snd poi := counts (snd poi) + 1)
                  else counts)
               pois createEmptyPoiCounts)"

text \<open>The function mapped over the cells; the cache is threaded through.\<close>

definition annotateFeature :: "(geometry option \<Rightarrow> string) \<Rightarrow> (pt \<times> PoiKind) list \<Rightarrow> string \<Rightarrow> hex_feature \<Rightarrow> annotation_cache \<Rightarrow> hex_feature \<times> annotation_cache" where
  "annotateFeature stringify pois poiVersion f cache =
     (let cacheKey = cacheKeyOf (annotationCellId stringify f) poiVersion;
          res = (case resolution f of Some r \<Rightarrow> r | None \<Rightarrow> 6)
      in case cache cacheKey of
           Some cached \<Rightarrow>
             (let counts = e_poiCounts cached;
                  est = e_estimated cached;
                  lvl = (if isFinite (e_greedLevel cached) then finVal (e_greedLevel cached)
                         else real_of_int (greedLevelFromEstimated est res))
              in (f\<lparr>poiCounts := Some counts, estimated := est, greedLevel := lvl\<rparr>, cache))
         | None \<Rightarrow>
             (let counts = countPoisInside pois (geometry f);
                  est = real_of_int (getEstimatedFromPoiCounts counts);
                  lvl = real_of_int (greedLevelFromEstimated est res)
              in (f\<lparr>poiCounts := Some counts, estimated := est, greedLevel := lvl\<rparr>,
                  cache(cacheKey \<mapsto> \<lparr>e_poiVersion = poiVersion, e_poiCounts = counts,
                                       e_estimated = est, e_greedLevel = Fin lvl\<rparr>))))"

fun annotateLoop :: "(geometry option \<Rightarrow> string) \<Rightarrow> (pt \<times> PoiKind) list \<Rightarrow> string \<Rightarrow> hex_feature list \<Rightarrow> annotation_cache \<Rightarrow> hex_feature list \<times> annotation_cache" where
  "annotateLoop stringify pois poiVersion [] cache = ([], cache)"
| "annotateLoop stringify pois poiVersion (f # fs) cache =
     (let r1 = annotateFeature stringify pois poiVersion f cache;
          r2 = annotateLoop stringify pois poiVersion fs (snd r1)
      in (fst r1 # fst r2, snd r2))"

text \<open>\<^verbatim>\<open>annotateHexesWithPois\<close>: the annotated features and the cache after the call.\<close>

definition annotateHexesWithPois :: "(geometry option \<Rightarrow> string) \<Rightarrow> hex_feature list \<Rightarrow> poi_feature list \<Rightarrow> string \<Rightarrow> annotation_cache \<Rightarrow> hex_feature list \<times> annotation_cache" where
  "annotateHexesWithPois stringify hexFeatures poisFc poiVersion cache =
     (if hexFeatures = [] then ([], cache)
      else annotateLoop stringify (poiFeaturesOf poisFc) poiVersion hexFeatures cache)"

section \<open>Notions used to state the properties\<close>

text \<open>The number of input points whose home cell, in the offset grid, has the identifier \<open>k\<close>.\<close>

definition pointsInCell :: "H3Resolution \<Rightarrow> pt list \<Rightarrow> string \<Rightarrow> nat" where
  "pointsInCell res ps k = length (filter (\<lambda>p. pointCellId res p = k) ps)"

text \<open>
  The invariant of the binning loop after the points \<open>qs\<close>: the keys are distinct, a cell
  without a bucket has received no point, and a bucket counts the points of its cell.
\<close>

definition binInv :: "H3Resolution \<Rightarrow> pt list \<Rightarrow> (string \<times> CellBucket) list \<Rightarrow> bool" where
  "binInv res qs cells \<longleftrightarrow> distinct (map fst cells) \<and>
     (\<forall>k. case map_of cells k of
             None \<Rightarrow> pointsInCell res qs k = 0
           | Some b \<Rightarrow> count b = pointsInCell res qs k \<and> 0 < count b)"

text \<open>The buckets that the second loop of \<^verbatim>\<open>aggregatePointsToHexFC\<close> does not skip.\<close>

definition keptCells :: "H3Resolution \<Rightarrow> pt list \<Rightarrow> (string \<times> CellBucket) list" where
  "keptCells res ps =
     filter (\<lambda>e. minCountForResolution res \<le> count (snd e)) (binPoints ps res)"

text \<open>The features that the first loop of \<^verbatim>\<open>buildSparseHexesFromPois\<close> bins.\<close>

definition sparseBinned :: "poi_feature \<Rightarrow> bool" where
  "sparseBinned f \<longleftrightarrow> kind f = Some ''synagogue'' \<and> 2 \<le> length (coordinates f)
      \<and> isFinite (coordinates f ! 0) \<and> isFinite (coordinates f ! 1)"

text \<open>
  Even-odd ray casting: the edges of a ring, each from the vertex before \<open>i\<close> (the last
  vertex for \<open>i = 0\<close>) to vertex \<open>i\<close>, that the ray from the point crosses.
\<close>

definition prevIndex :: "ring \<Rightarrow> nat \<Rightarrow> nat" where
  "prevIndex ring i = (if i = 0 then length ring - 1 else i - 1)"

definition crossingEdges :: "pt \<Rightarrow> ring \<Rightarrow> nat list" where
  "crossingEdges p ring =
     filter (\<lambda>i. edgeIntersect p (ring ! i) (ring ! prevIndex ring i)) [0..<length ring]"


text \<open>The angle \<^verbatim>\<open>((30 + 60 * k) * Math.PI) / 180\<close> of the \<open>k\<close>-th vertex, as a double.\<close>

definition hexAngle :: "nat \<Rightarrow> real" where
  "hexAngle k = fl (fl ((30 + 60 * real k) * Math_PI) / 180)"

text \<open>
  The abscissa at which the line through two vertices meets the horizontal line at height
  \<open>y\<close>, as \<^verbatim>\<open>pointInRing\<close> computes it from the vertex \<open>vi\<close>.
\<close>

definition crossingX :: "real \<Rightarrow> pt \<Rightarrow> pt \<Rightarrow> real" where
  "crossingX y vi vj =
     fl (fl (fl (fl (fst vj - fst vi) * fl (y - snd vi)) / fl (fl (snd vj - snd vi) + 0)) + fst vi)"


text \<open>The normalisation constant of a resolution, in the words of the specification.\<close>

fun resolutionMax :: "H3Resolution \<Rightarrow> real" where
  "resolutionMax Res5 = 2500"
| "resolutionMax Res6 = 900"
| "resolutionMax Res8 = 300"

text \<open>
  The center cells whose halo reaches the cell \<open>n\<close>: \<open>n\<close> is in their disk of radius 1, is
  not the center itself, and the halo is positive.
\<close>

definition haloSources :: "h3js \<Rightarrow> (string \<times> real) list \<Rightarrow> string \<Rightarrow> (string \<times> real) list" where
  "haloSources h ce n =
     filter (\<lambda>e. 0 < snd e * 0.25 \<and> n \<in> set (gridDisk h (fst e) 1) \<and> n \<noteq> fst e) ce"

text \<open>
  A small cell index with the interface of \<^verbatim>\<open>h3-js\<close>, used to run the engine on concrete
  inputs: a chain of unit cells along the equator, cell \<open>k\<close> covering the longitudes from
  \<open>k\<close> to \<open>k + 1\<close> and the latitudes from 0 to 1, with the cells \<open>k + 1\<close> and \<open>k - 1\<close> as its
  neighbours. It has none of the three area functions.
\<close>

definition chainCell :: "nat \<Rightarrow> string" where
  "chainCell k = CHR ''c'' # replicate k CHR ''x''"

definition chainDisk :: "string \<Rightarrow> nat \<Rightarrow> string list" where
  "chainDisk c k =
     (if k = 0 then [c]
      else [c, c @ ''x''] @ (if length c \<le> 1 then [] else [butlast c]))"

definition chainBoundary :: "string \<Rightarrow> ring" where
  "chainBoundary c =
     (let k = real (length c - 1) in [(k, 0), (k + 1, 0), (k + 1, 1), (k, 1), (k, 0)])"

definition chainH3 :: h3js where
  "chainH3 = \<lparr>latLngToCell = (\<lambda>lat lon res. chainCell (nat \<lfloor>lon\<rfloor>)),
              gridDisk = chainDisk,
              cellToBoundary = chainBoundary,
              cellArea = None, cellAreaKm2 = None, cellAreaM2 = None\<rparr>"

text \<open>The key under which the annotation looks a cell up, for a fingerprint \<open>v\<close>.\<close>

definition cellKey :: "(geometry option \<Rightarrow> string) \<Rightarrow> string \<Rightarrow> hex_feature \<Rightarrow> string" where
  "cellKey js v f = cacheKeyOf (annotationCellId js f) v"


definition examplePoi :: "real \<Rightarrow> real \<Rightarrow> poi_feature" where
  "examplePoi lon lat =
     \<lparr>kind = Some ''synagogue'', ptype = None, coordinates = [Fin lon, Fin lat]\<rparr>"

definition unitSquare :: "real \<Rightarrow> ring" where
  "unitSquare k = [(k, 0), (k + 1, 0), (k + 1, 1), (k, 1), (k, 0)]"

definition emptyCache :: annotation_cache where
  "emptyCache = Map.empty"

definition plainStringify :: "geometry option \<Rightarrow> string" where
  "plainStringify g = ''[]''"

text \<open>The rows that the third loop of \<^verbatim>\<open>buildSparseHexesFromPois\<close> pushes.\<close>

definition sparseRowsOf :: "h3js \<Rightarrow> poi_feature list \<Rightarrow> H3Resolution \<Rightarrow> sparse_row list" where
  "sparseRowsOf h fs res =
     fst (sparseRowsLoop h res (haloEstimates h (centerEstimatesOf h fs res)) 0)"

text \<open>The neighbours of a cell that get a row: the cells of its disk with a boundary.\<close>

definition haloNeighbours :: "h3js \<Rightarrow> string \<Rightarrow> string list" where
  "haloNeighbours h cell =
     filter (\<lambda>n. n \<noteq> cell \<and> 4 \<le> length (cellToBoundary h n)) (gridDisk h cell 1)"

text \<open>
  The example scenario: ten points of kind synagogue at one coordinate, built at resolution
  5 and annotated on an empty cache.
\<close>

definition tenPoints :: "real \<Rightarrow> real \<Rightarrow> poi_feature list" where
  "tenPoints lon lat = replicate 10 (examplePoi lon lat)"

definition tenPointsOutput :: "h3js \<Rightarrow> (geometry option \<Rightarrow> string) \<Rightarrow> string \<Rightarrow> real \<Rightarrow> real \<Rightarrow> hex_feature list" where
  "tenPointsOutput h js v lon lat =
     fst (annotateHexesWithPois js (fc (fst (buildSparseHexesFromPois h (tenPoints lon lat) Res5)))
            (tenPoints lon lat) v emptyCache)"

text \<open>
  What \<^verbatim>\<open>buildSparseHexesFromPois\<close> returns for given rows: the 95th percentile of the positive
  densities (1 when there is none) and the features.
\<close>

definition resultOfRows :: "H3Resolution \<Rightarrow> sparse_row list \<Rightarrow> sparse_result" where
  "resultOfRows res rows =
     (let p = percentile95 (filter (\<lambda>d. d > 0) (map r_density rows));
          p95v = (if p \<le> 0 then 1 else p)
      in \<lparr>fc = map (sparseFeature res p95v) rows, p95 = p95v\<rparr>)"

text \<open>
  Two inputs on the chain, for a number \<open>m\<close> of cells: one point in each of the cells
  \<open>0..m - 1\<close> and three more in the cell \<open>m - 1\<close>; and the same with one more point, in the
  cell \<open>m\<close>.
\<close>

definition chainInputA :: "nat \<Rightarrow> poi_feature list" where
  "chainInputA m =
     map (\<lambda>k. examplePoi (real k) (1/2)) [0..<m] @ replicate 3 (examplePoi (real (m - 1)) (1/2))"

definition chainInputB :: "nat \<Rightarrow> poi_feature list" where
  "chainInputB m = chainInputA m @ [examplePoi (real m) (1/2)]"

text \<open>The center cells \<open>0..m - 1\<close> of the chain, with one point each.\<close>

definition chainOnes :: "nat \<Rightarrow> (string \<times> real) list" where
  "chainOnes m = map (\<lambda>k. (chainCell k, 1)) [0..<m]"

text \<open>A halo \<open>halo\<close> from \<open>cell\<close> changes nothing at the neighbour \<open>n\<close>.\<close>

definition haloKeeps :: "(string \<times> real) list \<Rightarrow> string \<Rightarrow> real \<Rightarrow> string \<Rightarrow> bool" where
  "haloKeeps est cell halo n \<longleftrightarrow>
     n = cell \<or> (case map_of est n of None \<Rightarrow> False | Some w \<Rightarrow> halo \<le> w)"

text \<open>The center cells of \<open>chainInputA m\<close>: the last cell holds four points.\<close>

definition chainCentersA :: "nat \<Rightarrow> (string \<times> real) list" where
  "chainCentersA m = chainOnes (m - 1) @ [(chainCell (m - 1), 4)]"

section \<open>Properties of the rounding to a double\<close>

lemma pow2_powr: "pow2 e = 2 powr (real_of_int e)"
proof (cases "0 \<le> e")
  case True
  have "2 powr (real (nat e)) = (2::real) ^ nat e" by (rule powr_realpow) simp
  moreover have "real (nat e) = real_of_int e" using True by simp
  ultimately show ?thesis using True by (simp add: pow2_def)
next
  case False
  have "2 powr (real (nat (- e))) = (2::real) ^ nat (- e)" by (rule powr_realpow) simp
  moreover have "real (nat (- e)) = - real_of_int e" using False by simp
  ultimately have "2 powr (- real_of_int e) = (2::real) ^ nat (- e)" by simp
  then have "2 powr (real_of_int e) = 1 / (2::real) ^ nat (- e)"
    using powr_minus[of 2 "- real_of_int e"] by (simp add: field_simps)
  then show ?thesis using False by (simp add: pow2_def)
qed

lemma pow2_pos: "0 < pow2 e"
  by (simp add: pow2_powr)

lemma pow2_add: "pow2 (a + b) = pow2 a * pow2 b"
  by (simp add: pow2_powr powr_add)

lemma pow2_diff: "pow2 (a - b) = pow2 a / pow2 b"
  by (simp add: pow2_powr powr_diff)

lemma pow2_mono: "a \<le> b \<Longrightarrow> pow2 a \<le> pow2 b"
  by (simp add: pow2_powr)

lemma pow2_nat: "0 \<le> e \<Longrightarrow> pow2 e = real_of_int (2 ^ nat e)"
  by (simp add: pow2_def)

lemma round_even_near: "\<bar>real_of_int (round_even x) - x\<bar> \<le> 1 / 2"
  unfolding round_even_def Let_def by (auto; linarith)

lemma round_even_unique:
  assumes "\<bar>x - real_of_int n\<bar> < 1 / 2"
  shows "round_even x = n"
proof -
  have "\<bar>real_of_int (round_even x) - x\<bar> \<le> 1 / 2" by (rule round_even_near)
  then have "\<bar>real_of_int (round_even x) - real_of_int n\<bar> < 1" using assms by linarith
  then have "\<bar>real_of_int (round_even x - n)\<bar> < 1" by simp
  then have "\<bar>round_even x - n\<bar> < 1" by linarith
  then show ?thesis by linarith
qed

lemma round_even_of_int: "round_even (real_of_int n) = n"
  by (rule round_even_unique) simp

lemma round_even_tie:
  assumes "x = real_of_int n + 1 / 2"
  shows "round_even x = (if even n then n else n + 1)"
proof -
  have "\<lfloor>x\<rfloor> = n" using assms by linarith
  then show ?thesis using assms by (simp add: round_even_def Let_def)
qed

lemma round_even_bound:
  assumes "\<bar>x\<bar> \<le> real_of_int m"
  shows "\<bar>round_even x\<bar> \<le> m"
proof -
  have "\<bar>real_of_int (round_even x) - x\<bar> \<le> 1 / 2" by (rule round_even_near)
  then have "\<bar>real_of_int (round_even x)\<bar> \<le> real_of_int m + 1 / 2" using assms by linarith
  then have "real_of_int \<bar>round_even x\<bar> < real_of_int (m + 1)" by simp
  then have "\<bar>round_even x\<bar> < m + 1" by (simp only: of_int_less_iff)
  then show ?thesis by simp
qed

lemma round_even_nonneg: "0 \<le> x \<Longrightarrow> 0 \<le> round_even x"
  unfolding round_even_def Let_def by (auto; linarith)

lemma round_even_nonpos: "x \<le> 0 \<Longrightarrow> round_even x \<le> 0"
proof -
  assume a: "x \<le> 0"
  have "\<bar>real_of_int (round_even x) - x\<bar> \<le> 1 / 2" by (rule round_even_near)
  then have "real_of_int (round_even x) < 1" using a by linarith
  then show ?thesis by linarith
qed

lemma floor_log2:
  assumes "pow2 e \<le> \<bar>x\<bar>" "\<bar>x\<bar> < pow2 (e + 1)"
  shows "\<lfloor>log 2 \<bar>x\<bar>\<rfloor> = e"
proof -
  have p: "0 < \<bar>x\<bar>" using assms(1) pow2_pos[of e] by linarith
  have "real_of_int e \<le> log 2 \<bar>x\<bar>"
    using assms(1) p by (simp add: pow2_powr le_log_iff)
  moreover have "log 2 \<bar>x\<bar> < real_of_int e + 1"
    using assms(2) p by (simp add: pow2_powr log_less_iff add.commute)
  ultimately show ?thesis by linarith
qed

lemma fexp_eq:
  assumes "- 1022 \<le> e" "pow2 e \<le> \<bar>x\<bar>" "\<bar>x\<bar> < pow2 (e + 1)"
  shows "fexp x = e"
  using floor_log2[OF assms(2,3)] assms(1) by (simp add: fexp_def)

lemma fexp_le:
  assumes "x \<noteq> 0" "\<bar>x\<bar> \<le> pow2 k" "- 1022 \<le> k"
  shows "fexp x \<le> k"
proof -
  have "log 2 \<bar>x\<bar> \<le> real_of_int k"
    using assms(1,2) by (simp add: pow2_powr log_le_iff)
  then have "\<lfloor>log 2 \<bar>x\<bar>\<rfloor> \<le> k" by linarith
  then show ?thesis using assms(3) by (simp add: fexp_def)
qed

lemma fexp_lt:
  assumes "x \<noteq> 0" "\<bar>x\<bar> < pow2 k" "- 1022 < k"
  shows "fexp x < k"
proof -
  have "log 2 \<bar>x\<bar> < real_of_int k"
    using assms(1,2) by (simp add: pow2_powr log_less_iff)
  then have "\<lfloor>log 2 \<bar>x\<bar>\<rfloor> < k" by linarith
  then show ?thesis using assms(3) by (simp add: fexp_def)
qed

lemma pow2_fexp_le:
  assumes "pow2 (- 1022) \<le> \<bar>x\<bar>"
  shows "pow2 (fexp x) \<le> \<bar>x\<bar>"
proof -
  have p: "0 < \<bar>x\<bar>" using assms pow2_pos[of "- 1022"] by linarith
  have "2 powr real_of_int \<lfloor>log 2 \<bar>x\<bar>\<rfloor> \<le> 2 powr (log 2 \<bar>x\<bar>)"
    by (intro powr_mono) simp_all
  also have "\<dots> = \<bar>x\<bar>" using p by simp
  finally have "pow2 \<lfloor>log 2 \<bar>x\<bar>\<rfloor> \<le> \<bar>x\<bar>" by (simp add: pow2_powr)
  then show ?thesis using assms by (simp add: fexp_def max_def)
qed

lemma fl_0: "fl 0 = 0"
  by (simp add: fl_def)

lemma fl_eval:
  assumes "- 1022 \<le> e" "pow2 e \<le> \<bar>x\<bar>" "\<bar>x\<bar> < pow2 (e + 1)"
    and "\<bar>x / pow2 (e - 52) - real_of_int n\<bar> < 1 / 2"
  shows "fl x = real_of_int n * pow2 (e - 52)"
proof -
  have nz: "x \<noteq> 0" using assms(2) pow2_pos[of e] by auto
  have "fexp x = e" using assms(1-3) by (rule fexp_eq)
  then show ?thesis using nz round_even_unique[OF assms(4)] by (simp add: fl_def Let_def)
qed

lemma fl_eval_tie:
  assumes "- 1022 \<le> e" "pow2 e \<le> \<bar>x\<bar>" "\<bar>x\<bar> < pow2 (e + 1)"
    and "x / pow2 (e - 52) = real_of_int n + 1 / 2"
  shows "fl x = real_of_int (if even n then n else n + 1) * pow2 (e - 52)"
proof -
  have nz: "x \<noteq> 0" using assms(2) pow2_pos[of e] by auto
  have "fexp x = e" using assms(1-3) by (rule fexp_eq)
  then show ?thesis using nz round_even_tie[OF assms(4)] by (simp add: fl_def Let_def)
qed

lemma fl_error:
  "\<bar>fl x - x\<bar> \<le> pow2 (fexp x - 52) / 2"
proof (cases "x = 0")
  case True
  then show ?thesis using pow2_pos[of "fexp x - 52"] by (simp add: fl_def)
next
  case False
  let ?u = "pow2 (fexp x - 52)"
  have u: "0 < ?u" by (rule pow2_pos)
  have "\<bar>real_of_int (round_even (x / ?u)) - x / ?u\<bar> \<le> 1 / 2" by (rule round_even_near)
  then have "\<bar>real_of_int (round_even (x / ?u)) - x / ?u\<bar> * ?u \<le> 1 / 2 * ?u"
    using u by (simp only: mult_le_cancel_right) simp
  moreover have "\<bar>real_of_int (round_even (x / ?u)) - x / ?u\<bar> * ?u
               = \<bar>real_of_int (round_even (x / ?u)) * ?u - x\<bar>"
  proof -
    have "\<bar>real_of_int (round_even (x / ?u)) - x / ?u\<bar> * ?u
        = \<bar>(real_of_int (round_even (x / ?u)) - x / ?u) * ?u\<bar>"
      using u by (simp add: abs_mult)
    also have "(real_of_int (round_even (x / ?u)) - x / ?u) * ?u
             = real_of_int (round_even (x / ?u)) * ?u - x"
      using u by (simp add: field_simps)
    finally show ?thesis .
  qed
  ultimately show ?thesis using False by (simp add: fl_def Let_def)
qed

lemma fl_abs_error:
  assumes "\<bar>x\<bar> \<le> pow2 k" "- 1022 \<le> k"
  shows "\<bar>fl x - x\<bar> \<le> pow2 (k - 53)"
proof (cases "x = 0")
  case True
  then show ?thesis using pow2_pos[of "k - 53"] by (simp add: fl_def)
next
  case False
  have "fexp x \<le> k" using False assms by (rule fexp_le)
  then have "pow2 (fexp x - 52) \<le> pow2 (k - 52)" by (intro pow2_mono) simp
  moreover have "pow2 (k - 52) = pow2 (k - 53) * 2"
    using pow2_add[of "k - 53" 1] by (simp add: pow2_def)
  ultimately have "pow2 (fexp x - 52) / 2 \<le> pow2 (k - 53)" by simp
  then show ?thesis using fl_error[of x] by linarith
qed

lemma fl_rel_error:
  assumes "pow2 (- 1022) \<le> \<bar>x\<bar>"
  shows "\<bar>fl x - x\<bar> \<le> \<bar>x\<bar> / 2 ^ 53"
proof -
  have "pow2 (fexp x - 52) = pow2 (fexp x) / 2 ^ 52"
    by (simp add: pow2_diff) (simp add: pow2_def)
  also have "\<dots> \<le> \<bar>x\<bar> / 2 ^ 52"
    using pow2_fexp_le[OF assms] by (simp add: divide_right_mono)
  finally have "pow2 (fexp x - 52) / 2 \<le> \<bar>x\<bar> / 2 ^ 53" by simp
  then show ?thesis using fl_error[of x] by linarith
qed

lemma fl_neg: "fl (- x) = - fl x"
proof (cases "x = 0")
  case True
  then show ?thesis by (simp add: fl_def)
next
  case False
  let ?u = "pow2 (fexp x - 52)"
  have "round_even (- (x / ?u)) = - round_even (x / ?u)"
  proof (cases "\<exists>n. x / ?u = real_of_int n + 1 / 2")
    case True
    then obtain n where n: "x / ?u = real_of_int n + 1 / 2" by blast
    then have m: "- (x / ?u) = real_of_int (- n - 1) + 1 / 2" by simp
    show ?thesis
      unfolding round_even_tie[OF n] round_even_tie[OF m] by auto
  next
    case False
    let ?y = "x / ?u"
    have a: "\<bar>real_of_int (round_even ?y) - ?y\<bar> \<le> 1 / 2" by (rule round_even_near)
    have "\<bar>real_of_int (round_even ?y) - ?y\<bar> \<noteq> 1 / 2"
    proof
      assume e: "\<bar>real_of_int (round_even ?y) - ?y\<bar> = 1 / 2"
      then have "?y = real_of_int (round_even ?y) - 1 / 2 \<or> ?y = real_of_int (round_even ?y) + 1 / 2"
        by linarith
      then have "?y = real_of_int (round_even ?y - 1) + 1 / 2 \<or> ?y = real_of_int (round_even ?y) + 1 / 2"
        by simp
      then show False using False by blast
    qed
    then have "\<bar>real_of_int (round_even ?y) - ?y\<bar> < 1 / 2" using a by linarith
    then have "\<bar>- ?y - real_of_int (- round_even ?y)\<bar> < 1 / 2" by simp
    then show ?thesis by (rule round_even_unique)
  qed
  then show ?thesis using False by (simp add: fl_def Let_def fexp_def)
qed

lemma fl_nonneg: "0 \<le> x \<Longrightarrow> 0 \<le> fl x"
  using round_even_nonneg[of "x / pow2 (fexp x - 52)"] pow2_pos[of "fexp x - 52"]
  by (simp add: fl_def Let_def)

lemma fl_nonpos: "x \<le> 0 \<Longrightarrow> fl x \<le> 0"
  using fl_nonneg[of "- x"] by (simp add: fl_neg)

text \<open>A multiple of a power of two with at most 53 bits is a double.\<close>

lemma fl_exact:
  assumes "x = real_of_int n * pow2 k" "\<bar>n\<bar> < 2 ^ 53" "- 1074 \<le> k"
  shows "fl x = x"
proof (cases "x = 0")
  case True
  then show ?thesis by (simp add: fl_def)
next
  case False
  have "\<bar>x\<bar> = real_of_int \<bar>n\<bar> * pow2 k"
    using assms(1) pow2_pos[of k] by (simp add: abs_mult)
  also have "\<dots> < real_of_int (2 ^ 53) * pow2 k"
    using assms(2) pow2_pos[of k] by (simp only: mult_less_cancel_right of_int_less_iff) simp
  also have "\<dots> = pow2 (k + 53)"
    by (simp add: pow2_add) (simp add: pow2_def)
  finally have "\<bar>x\<bar> < pow2 (k + 53)" .
  then have "fexp x < k + 53" using False assms(3) by (intro fexp_lt) simp_all
  then have d: "0 \<le> k - (fexp x - 52)" by simp
  let ?u = "pow2 (fexp x - 52)"
  have "x / ?u = real_of_int n * pow2 (k - (fexp x - 52))"
    using assms(1) by (simp add: pow2_diff)
  also have "\<dots> = real_of_int (n * 2 ^ nat (k - (fexp x - 52)))"
    using pow2_nat[OF d] by simp
  finally have "round_even (x / ?u) = n * 2 ^ nat (k - (fexp x - 52))"
    by (simp only: round_even_of_int)
  then have "real_of_int (round_even (x / ?u)) * ?u
           = real_of_int n * pow2 (k - (fexp x - 52)) * ?u"
    using pow2_nat[OF d] by simp
  also have "\<dots> = real_of_int n * pow2 k"
    using pow2_add[of "k - (fexp x - 52)" "fexp x - 52"] by simp
  finally show ?thesis using False assms(1) by (simp add: fl_def Let_def)
qed

lemma fl_of_int: "\<bar>n\<bar> < 2 ^ 53 \<Longrightarrow> fl (real_of_int n) = real_of_int n"
  using fl_exact[of "real_of_int n" n 0] by (simp add: pow2_def)

lemma fl_half_int: "\<bar>n\<bar> < 2 ^ 53 \<Longrightarrow> fl (real_of_int n / 2) = real_of_int n / 2"
  using fl_exact[of "real_of_int n / 2" n "- 1"] by (simp add: pow2_def)

lemma fl_numeral [simp]:
  "(numeral w :: int) < 9007199254740992 \<Longrightarrow> fl (numeral w) = numeral w"
  using fl_of_int[of "numeral w"] by simp

lemma fl_numeral_half [simp]:
  "(numeral w :: int) < 9007199254740992 \<Longrightarrow> fl (numeral w / 2) = numeral w / 2"
  using fl_half_int[of "numeral w"] by simp

lemma fl_1 [simp]: "fl 1 = 1"
  using fl_of_int[of 1] by simp

lemma fl_half [simp]: "fl (1 / 2) = 1 / 2"
  using fl_half_int[of 1] by simp

lemma fl_bound:
  assumes "\<bar>x\<bar> \<le> pow2 k" "- 1022 \<le> k"
  shows "\<bar>fl x\<bar> \<le> pow2 k"
proof (cases "x = 0")
  case True
  then show ?thesis using pow2_pos[of k] by (simp add: fl_def)
next
  case False
  have "fexp x \<le> k" using False assms by (rule fexp_le)
  then have d: "0 \<le> k - (fexp x - 52)" by simp
  let ?u = "pow2 (fexp x - 52)"
  have u: "0 < ?u" by (rule pow2_pos)
  have "\<bar>x / ?u\<bar> = \<bar>x\<bar> / ?u" using u by simp
  also have "\<dots> \<le> pow2 k / ?u" using assms(1) u by (simp add: divide_right_mono)
  also have "\<dots> = real_of_int (2 ^ nat (k - (fexp x - 52)))"
    using pow2_nat[OF d] by (simp add: pow2_diff)
  finally have "\<bar>round_even (x / ?u)\<bar> \<le> 2 ^ nat (k - (fexp x - 52))"
    by (rule round_even_bound)
  then have "real_of_int \<bar>round_even (x / ?u)\<bar> \<le> real_of_int (2 ^ nat (k - (fexp x - 52)))"
    by (simp only: of_int_le_iff)
  then have "\<bar>real_of_int (round_even (x / ?u))\<bar> * ?u \<le> pow2 (k - (fexp x - 52)) * ?u"
    using u pow2_nat[OF d] by (simp only: mult_le_cancel_right) simp
  also have "\<dots> = pow2 k"
    using pow2_add[of "k - (fexp x - 52)" "fexp x - 52"] by simp
  finally show ?thesis using False u by (simp add: fl_def Let_def abs_mult)
qed

declare fl_0 [simp] fl_neg [simp]

section \<open>Properties of the resolution state machine\<close>

text \<open>
  C2. With the enter thresholds 6 and 8, the transition function is, for every zoom \<open>z\<close>:
  from fine (8), leave only when \<open>z < 7\<close>, to medium when \<open>z \<ge> 6\<close> and to coarse otherwise;
  from medium (6), go to fine iff \<open>z \<ge> 8\<close>, to coarse iff \<open>z < 5\<close>, and stay otherwise;
  from coarse (5), go to fine when \<open>z \<ge> 8\<close>, to medium when \<open>6 \<le> z < 8\<close>, and stay otherwise.
  Inside a hysteresis band (\<open>7 \<le> z < 8\<close>, or \<open>5 \<le> z < 6\<close>) both adjacent states are fixed
  points, so the state does not oscillate from frame to frame.
\<close>

theorem getHexResWithHysteresis_transitions:
  "getHexResWithHysteresis z Res8 = (if z < 7 then (if z \<ge> 6 then Res6 else Res5) else Res8)
 \<and> getHexResWithHysteresis z Res6 = (if z \<ge> 8 then Res8 else if z < 5 then Res5 else Res6)
 \<and> getHexResWithHysteresis z Res5 =
       (if z \<ge> 8 then Res8 else if 6 \<le> z \<and> z < 8 then Res6 else Res5)
 \<and> (7 \<le> z \<and> z < 8 \<longrightarrow>
       getHexResWithHysteresis z Res8 = Res8 \<and> getHexResWithHysteresis z Res6 = Res6)
 \<and> (5 \<le> z \<and> z < 6 \<longrightarrow>
       getHexResWithHysteresis z Res6 = Res6 \<and> getHexResWithHysteresis z Res5 = Res5)"
  by (simp add: TOWN_EXIT_Z_def CITY_ENTER_Z_def TOWN_ENTER_Z_def CITY_EXIT_Z_def)

theorem getHexResWithHysteresis_transitions_witness:
  "(7::real) \<le> 15 / 2 \<and> (15 / 2 :: real) < 8
 \<and> getHexResWithHysteresis (15 / 2) Res8 = Res8 \<and> getHexResWithHysteresis (15 / 2) Res6 = Res6
 \<and> (5::real) \<le> 11 / 2 \<and> (11 / 2 :: real) < 6
 \<and> getHexResWithHysteresis (11 / 2) Res6 = Res6 \<and> getHexResWithHysteresis (11 / 2) Res5 = Res5"
  using getHexResWithHysteresis_transitions [of "15 / 2"]
        getHexResWithHysteresis_transitions [of "11 / 2"]
  by simp

section \<open>Properties of the offset-grid aggregation\<close>

lemma addPoint_map_of:
  "map_of (addPoint res p cells) =
     (map_of cells)(pointCellId res p \<mapsto>
        (case map_of cells (pointCellId res p) of
           Some prev \<Rightarrow> prev\<lparr>count := count prev + 1\<rparr>
         | None \<Rightarrow> \<lparr>row = fst (pointRowCol res p), col = snd (pointRowCol res p), count = 1\<rparr>))"
  by (simp add: addPoint_def pointCellId_def update_conv' split: prod.splits option.splits)

lemma addPoint_distinct: "distinct (map fst cells) \<Longrightarrow> distinct (map fst (addPoint res p cells))"
  by (simp add: addPoint_def Let_def distinct_update split: prod.splits option.splits)

lemma pointsInCell_snoc:
  "pointsInCell res (qs @ [p]) k = pointsInCell res qs k + (if pointCellId res p = k then 1 else 0)"
  by (simp add: pointsInCell_def)

lemma binInv_step:
  assumes "binInv res qs cells"
  shows "binInv res (qs @ [p]) (addPoint res p cells)"
proof -
  have d: "distinct (map fst (addPoint res p cells))"
    using assms addPoint_distinct by (simp add: binInv_def)
  have m: "\<And>k. case map_of (addPoint res p cells) k of
              None \<Rightarrow> pointsInCell res (qs @ [p]) k = 0
            | Some b \<Rightarrow> count b = pointsInCell res (qs @ [p]) k \<and> 0 < count b"
  proof -
    fix k
    have old: "case map_of cells k of None \<Rightarrow> pointsInCell res qs k = 0
                | Some b \<Rightarrow> count b = pointsInCell res qs k \<and> 0 < count b"
      using assms by (simp add: binInv_def)
    show "case map_of (addPoint res p cells) k of
              None \<Rightarrow> pointsInCell res (qs @ [p]) k = 0
            | Some b \<Rightarrow> count b = pointsInCell res (qs @ [p]) k \<and> 0 < count b"
      using old
      by (cases "pointCellId res p = k")
         (auto simp: addPoint_map_of pointsInCell_snoc split: option.splits)
  qed
  show ?thesis unfolding binInv_def using d m by blast
qed

lemma binInv_fold:
  "binInv res qs cells \<Longrightarrow> binInv res (qs @ ps) (fold (addPoint res) ps cells)"
proof (induction ps arbitrary: qs cells)
  case Nil
  then show ?case by simp
next
  case (Cons p ps)
  have "binInv res ((qs @ [p]) @ ps) (fold (addPoint res) ps (addPoint res p cells))"
    by (rule Cons.IH) (rule binInv_step[OF Cons.prems])
  then show ?case by simp
qed

lemma binInv_binPoints: "binInv res ps (binPoints ps res)"
  using binInv_fold[of res "[]" "[]" ps]
  by (simp add: binPoints_def binInv_def pointsInCell_def)

lemma binPoints_distinct: "distinct (map fst (binPoints ps res))"
  using binInv_binPoints[of res ps] by (simp add: binInv_def)

lemma binPoints_count:
  assumes "(k, b) \<in> set (binPoints ps res)"
  shows "count b = pointsInCell res ps k \<and> 0 < count b"
proof -
  have "map_of (binPoints ps res) k = Some b"
    using assms binPoints_distinct by simp
  moreover have "case map_of (binPoints ps res) k of None \<Rightarrow> pointsInCell res ps k = 0
                | Some b \<Rightarrow> count b = pointsInCell res ps k \<and> 0 < count b"
    using binInv_binPoints[of res ps] by (simp add: binInv_def)
  ultimately show ?thesis by simp
qed

lemma binPoints_keys:
  "k \<in> fst ` set (binPoints ps res) \<longleftrightarrow> 0 < pointsInCell res ps k"
proof -
  have c: "case map_of (binPoints ps res) k of None \<Rightarrow> pointsInCell res ps k = 0
                | Some b \<Rightarrow> count b = pointsInCell res ps k \<and> 0 < count b"
    using binInv_binPoints[of res ps] by (simp add: binInv_def)
  show ?thesis
  proof (cases "map_of (binPoints ps res) k")
    case None
    then have "k \<notin> fst ` set (binPoints ps res)" by (simp add: map_of_eq_None_iff)
    then show ?thesis using c None by simp
  next
    case (Some b)
    then have "map_of (binPoints ps res) k \<noteq> None" by simp
    then have "k \<in> fst ` set (binPoints ps res)"
      by (simp add: map_of_eq_None_iff)
    then show ?thesis using c Some by simp
  qed
qed


lemma emitFeatures_eq:
  "emitFeatures res cells =
     map (bucketFeature res) (filter (\<lambda>e. minCountForResolution res \<le> count (snd e)) cells)"
  by (induction cells) (auto simp: not_less)

lemma hf_count_bucketFeature: "hf_count (bucketFeature res e) = count (snd e)"
  by (simp add: bucketFeature_def Let_def)

lemma hf_cellId_bucketFeature: "hf_cellId (bucketFeature res e) = fst e"
  by (simp add: bucketFeature_def Let_def)

lemma length_filter_disj:
  "(\<And>p. p \<in> set ps \<Longrightarrow> \<not> (A p \<and> B p)) \<Longrightarrow>
   length (filter (\<lambda>p. A p \<or> B p) ps) = length (filter A ps) + length (filter B ps)"
  by (induction ps) auto

lemma sum_counts_distinct:
  "distinct ks \<Longrightarrow>
   sum_list (map (\<lambda>k. length (filter (\<lambda>p. f p = k) ps)) ks) = length (filter (\<lambda>p. f p \<in> set ks) ps)"
proof (induction ks)
  case Nil
  then show ?case by simp
next
  case (Cons k ks)
  have "length (filter (\<lambda>p. f p = k \<or> f p \<in> set ks) ps)
        = length (filter (\<lambda>p. f p = k) ps) + length (filter (\<lambda>p. f p \<in> set ks) ps)"
    using Cons.prems by (intro length_filter_disj) auto
  then show ?case using Cons by simp
qed

lemma sum_bucket_counts:
  assumes "set cells' \<subseteq> set (binPoints ps res)"
  shows "sum_list (map (\<lambda>e. count (snd e)) cells') = sum_list (map (pointsInCell res ps) (map fst cells'))"
proof -
  have "\<And>e. e \<in> set cells' \<Longrightarrow> count (snd e) = pointsInCell res ps (fst e)"
  proof -
    fix e assume "e \<in> set cells'"
    then have "(fst e, snd e) \<in> set (binPoints ps res)" using assms by auto
    from binPoints_count[OF this] show "count (snd e) = pointsInCell res ps (fst e)" by simp
  qed
  then show ?thesis by (simp add: comp_def cong: map_cong)
qed

lemma keptCells_distinct: "distinct (map fst (keptCells res ps))"
  unfolding keptCells_def using binPoints_distinct[of ps res] by (rule distinct_map_filter)

lemma keptCells_keys:
  "k \<in> set (map fst (keptCells res ps)) \<longleftrightarrow>
     minCountForResolution res \<le> pointsInCell res ps k \<and> 0 < pointsInCell res ps k"
proof
  let ?m = "minCountForResolution res"
  assume "k \<in> set (map fst (keptCells res ps))"
  then have "k \<in> fst ` {e \<in> set (binPoints ps res). ?m \<le> count (snd e)}"
    by (simp add: keptCells_def)
  then obtain e where e: "e \<in> set (binPoints ps res)" "?m \<le> count (snd e)" "k = fst e"
    by blast
  have "(k, snd e) \<in> set (binPoints ps res)" using e by simp
  from binPoints_count[OF this] e(2)
  show "?m \<le> pointsInCell res ps k \<and> 0 < pointsInCell res ps k" by simp
next
  let ?m = "minCountForResolution res"
  assume a: "?m \<le> pointsInCell res ps k \<and> 0 < pointsInCell res ps k"
  then have "k \<in> fst ` set (binPoints ps res)" using binPoints_keys by simp
  then obtain e where e: "e \<in> set (binPoints ps res)" "k = fst e" by blast
  have "(k, snd e) \<in> set (binPoints ps res)" using e by simp
  from binPoints_count[OF this] a have "?m \<le> count (snd e)" by simp
  then have "e \<in> {e \<in> set (binPoints ps res). ?m \<le> count (snd e)}" using e by simp
  then have "k \<in> fst ` {e \<in> set (binPoints ps res). ?m \<le> count (snd e)}" using e(2) by blast
  then show "k \<in> set (map fst (keptCells res ps))" by (simp add: keptCells_def)
qed

lemma aggregate_eq: "aggregatePointsToHexFC ps res = map (bucketFeature res) (keptCells res ps)"
  by (simp add: aggregatePointsToHexFC_def emitFeatures_eq keptCells_def)

lemma aggregate_counts:
  "map hf_count (aggregatePointsToHexFC ps res) = map (\<lambda>e. count (snd e)) (keptCells res ps)"
  unfolding aggregate_eq by (simp add: hf_count_bucketFeature)

lemma pointsInCell_pos: "p \<in> set ps \<Longrightarrow> 0 < pointsInCell res ps (pointCellId res p)"
  by (auto simp: pointsInCell_def filter_empty_conv)

lemma emitted_sum:
  "sum_list (map hf_count (aggregatePointsToHexFC ps res))
   = length (filter (\<lambda>p. minCountForResolution res \<le> pointsInCell res ps (pointCellId res p)) ps)"
proof -
  let ?m = "minCountForResolution res"
  have "sum_list (map hf_count (aggregatePointsToHexFC ps res))
        = sum_list (map (\<lambda>e. count (snd e)) (keptCells res ps))"
    by (simp only: aggregate_counts)
  also have "\<dots> = sum_list (map (pointsInCell res ps) (map fst (keptCells res ps)))"
    by (rule sum_bucket_counts) (simp add: keptCells_def)
  also have "\<dots> = length (filter (\<lambda>p. pointCellId res p \<in> set (map fst (keptCells res ps))) ps)"
    using sum_counts_distinct[where f="pointCellId res" and ps=ps, OF keptCells_distinct[of res ps]]
    by (simp add: pointsInCell_def comp_def)
  also have "\<dots> = length (filter (\<lambda>p. ?m \<le> pointsInCell res ps (pointCellId res p)) ps)"
  proof -
    have "filter (\<lambda>p. pointCellId res p \<in> set (map fst (keptCells res ps))) ps
             = filter (\<lambda>p. ?m \<le> pointsInCell res ps (pointCellId res p)) ps"
    proof (rule filter_cong[OF refl])
      fix p assume "p \<in> set ps"
      then show "(pointCellId res p \<in> set (map fst (keptCells res ps)))
            = (?m \<le> pointsInCell res ps (pointCellId res p))"
        using pointsInCell_pos[of p ps res] by (simp only: keptCells_keys) simp
    qed
    then show ?thesis by (simp only:)
  qed
  finally show ?thesis .
qed

lemma all_sum: "sum_list (map (\<lambda>e. count (snd e)) (binPoints ps res)) = length ps"
proof -
  have "sum_list (map (\<lambda>e. count (snd e)) (binPoints ps res))
       = sum_list (map (pointsInCell res ps) (map fst (binPoints ps res)))"
    by (rule sum_bucket_counts) simp
  also have "\<dots> = length (filter (\<lambda>p. pointCellId res p \<in> set (map fst (binPoints ps res))) ps)"
    using sum_counts_distinct[where f="pointCellId res" and ps=ps, OF binPoints_distinct[of ps res]]
    by (simp add: pointsInCell_def comp_def)
  also have "\<dots> = length ps"
  proof -
    have "\<And>p. p \<in> set ps \<Longrightarrow> pointCellId res p \<in> set (map fst (binPoints ps res))"
      using binPoints_keys[of _ ps res] by (auto simp: pointsInCell_def filter_empty_conv)
    then have "filter (\<lambda>p. pointCellId res p \<in> set (map fst (binPoints ps res))) ps = ps"
      by (simp add: filter_id_conv)
    then show ?thesis by simp
  qed
  finally show ?thesis .
qed

lemma update_getOr0_sum:
  "sum_list (map snd (AList.update k (getOr0 m k + 1) m)) = sum_list (map snd m) + 1"
  by (induction m) (auto simp: getOr0_def)

lemma addCenter_sum:
  "sum_list (map snd (addCenter h res f ce)) = sum_list (map snd ce) + (if sparseBinned f then 1 else 0)"
  by (auto simp: addCenter_def Let_def sparseBinned_def update_getOr0_sum)

lemma fold_addCenter_sum:
  "sum_list (map snd (fold (addCenter h res) fs ce)) = sum_list (map snd ce) + real (length (filter sparseBinned fs))"
  by (induction fs arbitrary: ce) (auto simp: addCenter_sum)

lemma center_sum: "sum_list (map snd (centerEstimatesOf h fs res)) = real (length (filter sparseBinned fs))"
  by (simp add: centerEstimatesOf_def fold_addCenter_sum)

lemma minCount_pos: "0 < minCountForResolution res"
  by (cases res) simp_all

lemma aggregate_ids:
  "(\<exists>f \<in> set (aggregatePointsToHexFC ps res). hf_cellId f = k)
     \<longleftrightarrow> minCountForResolution res \<le> pointsInCell res ps k"
proof -
  have "(\<exists>f \<in> set (aggregatePointsToHexFC ps res). hf_cellId f = k)
        \<longleftrightarrow> k \<in> set (map fst (keptCells res ps))"
    unfolding aggregate_eq by (auto simp: hf_cellId_bucketFeature image_iff)
  also have "\<dots> \<longleftrightarrow> minCountForResolution res \<le> pointsInCell res ps k"
    using minCount_pos[of res] by (simp only: keptCells_keys) auto
  finally show ?thesis .
qed

lemma aggregate_feature_count:
  assumes "f \<in> set (aggregatePointsToHexFC ps res)"
  shows "minCountForResolution res \<le> hf_count f \<and> hf_count f = pointsInCell res ps (hf_cellId f)"
proof -
  from assms obtain e where e: "e \<in> set (keptCells res ps)" "f = bucketFeature res e"
    unfolding aggregate_eq by auto
  then have k: "e \<in> set (binPoints ps res)" "minCountForResolution res \<le> count (snd e)"
    by (simp_all add: keptCells_def)
  then have "(fst e, snd e) \<in> set (binPoints ps res)" by simp
  from binPoints_count[OF this] k(2) e(2) show ?thesis
    by (simp add: hf_count_bucketFeature hf_cellId_bucketFeature)
qed

text \<open>
  C3, as amended. Binning gives every point one home cell: the buckets have distinct
  identifiers, each bucket counts the points whose home cell it is, and the counts of all
  buckets add up to the number of input points. The counts of the cells that the offset-grid
  aggregation emits add up to the number of input points whose home cell holds at least the
  minimum count of the resolution; at resolution 5, where the minimum is 1, that is every
  input point. In global-index binning the center counts add up to the number of features
  that are binned (kind \<open>synagogue\<close>, two finite coordinates).
\<close>

theorem count_conservation:
  "distinct (map fst (binPoints ps res))
 \<and> (\<forall>e \<in> set (binPoints ps res). count (snd e) = pointsInCell res ps (fst e))
 \<and> sum_list (map (\<lambda>e. count (snd e)) (binPoints ps res)) = length ps
 \<and> sum_list (map hf_count (aggregatePointsToHexFC ps res))
     = length (filter (\<lambda>p. minCountForResolution res \<le> pointsInCell res ps (pointCellId res p)) ps)
 \<and> sum_list (map hf_count (aggregatePointsToHexFC ps Res5)) = length ps
 \<and> sum_list (map snd (centerEstimatesOf h fs res)) = real (length (filter sparseBinned fs))"
proof -
  have a: "\<forall>e \<in> set (binPoints ps res). count (snd e) = pointsInCell res ps (fst e)"
  proof
    fix e assume "e \<in> set (binPoints ps res)"
    then have "(fst e, snd e) \<in> set (binPoints ps res)" by simp
    from binPoints_count[OF this] show "count (snd e) = pointsInCell res ps (fst e)" by simp
  qed
  have "filter (\<lambda>p. minCountForResolution Res5 \<le> pointsInCell Res5 ps (pointCellId Res5 p)) ps = ps"
    using pointsInCell_pos[of _ ps Res5] by (auto simp: filter_id_conv Suc_le_eq)
  then have b: "sum_list (map hf_count (aggregatePointsToHexFC ps Res5)) = length ps"
    by (simp only: emitted_sum)
  show ?thesis using a b binPoints_distinct all_sum emitted_sum center_sum by blast
qed

theorem count_conservation_witness:
  "sum_list (map hf_count (aggregatePointsToHexFC [(0, 0), (0, 0)] Res6)) = 2
 \<and> sum_list (map (\<lambda>e. count (snd e)) (binPoints [(0, 0)] Res6)) = 1
 \<and> distinct (map fst (binPoints [(0, 0)] Res6))"
proof -
  have "sum_list (map hf_count (aggregatePointsToHexFC [(0, 0), (0, 0)] Res6))
        = length (filter (\<lambda>p. minCountForResolution Res6
                                 \<le> pointsInCell Res6 [(0, 0), (0, 0)] (pointCellId Res6 p))
                   [(0, 0), (0, 0)])"
    using count_conservation [of "[(0, 0), (0, 0)]" Res6] by blast
  then have a: "sum_list (map hf_count (aggregatePointsToHexFC [(0, 0), (0, 0)] Res6)) = 2"
    by (simp add: pointsInCell_def)
  have "sum_list (map (\<lambda>e. count (snd e)) (binPoints [(0, 0)] Res6)) = length [(0::real, 0::real)]"
       "distinct (map fst (binPoints [(0, 0)] Res6))"
    using count_conservation [of "[(0, 0)]" Res6] by blast+
  then show ?thesis using a by simp
qed

text \<open>
  The claim as stated fails: at resolution 6 a single point is binned but its cell is not
  emitted, so the emitted counts add up to 0, not to the number of points.
\<close>

theorem count_conservation_counterexample:
  "sum_list (map hf_count (aggregatePointsToHexFC [(0, 0)] Res6)) \<noteq> length [(0::real, 0::real)]"
  by (simp add: aggregatePointsToHexFC_def binPoints_def addPoint_def Let_def split: prod.splits)

text \<open>
  C10. Every feature that the offset-grid aggregation emits has a count of at least the
  minimum of the resolution (2 at resolutions 6 and 8, 1 at resolution 5), and that count is
  the number of input points of its cell; a cell is emitted exactly when it holds at least
  the minimum, so a bucket below the minimum is left out. The minimum is not the
  k-anonymity threshold, which is 3.
\<close>

theorem suppression_below_min_count:
  "(\<forall>f \<in> set (aggregatePointsToHexFC ps res).
       minCountForResolution res \<le> hf_count f \<and> hf_count f = pointsInCell res ps (hf_cellId f))
 \<and> (\<forall>k. (\<exists>f \<in> set (aggregatePointsToHexFC ps res). hf_cellId f = k)
          \<longleftrightarrow> minCountForResolution res \<le> pointsInCell res ps k)
 \<and> (\<forall>e \<in> set (binPoints ps res). count (snd e) < minCountForResolution res \<longrightarrow>
        \<not> (\<exists>f \<in> set (aggregatePointsToHexFC ps res). hf_cellId f = fst e))
 \<and> minCountForResolution Res6 = 2 \<and> minCountForResolution Res8 = 2
 \<and> minCountForResolution Res5 = 1
 \<and> K_ANONYMITY_THRESHOLD = 3 \<and> minCountForResolution res < K_ANONYMITY_THRESHOLD"
proof -
  have c: "\<forall>e \<in> set (binPoints ps res). count (snd e) < minCountForResolution res \<longrightarrow>
        \<not> (\<exists>f \<in> set (aggregatePointsToHexFC ps res). hf_cellId f = fst e)"
  proof (intro ballI impI)
    fix e assume e: "e \<in> set (binPoints ps res)" "count (snd e) < minCountForResolution res"
    then have "(fst e, snd e) \<in> set (binPoints ps res)" by simp
    from binPoints_count[OF this] e(2)
    have "\<not> minCountForResolution res \<le> pointsInCell res ps (fst e)" by simp
    then show "\<not> (\<exists>f \<in> set (aggregatePointsToHexFC ps res). hf_cellId f = fst e)"
      by (simp only: aggregate_ids) simp
  qed
  have d: "minCountForResolution res < K_ANONYMITY_THRESHOLD"
    by (cases res) (simp_all add: K_ANONYMITY_THRESHOLD_def)
  show ?thesis
  proof (intro conjI)
    show "\<forall>f \<in> set (aggregatePointsToHexFC ps res).
       minCountForResolution res \<le> hf_count f \<and> hf_count f = pointsInCell res ps (hf_cellId f)"
      using aggregate_feature_count by blast
    show "\<forall>k. (\<exists>f \<in> set (aggregatePointsToHexFC ps res). hf_cellId f = k)
          \<longleftrightarrow> minCountForResolution res \<le> pointsInCell res ps k"
      using aggregate_ids by blast
  qed (use c d in \<open>simp_all add: K_ANONYMITY_THRESHOLD_def\<close>)
qed

theorem suppression_below_min_count_witness:
  "aggregatePointsToHexFC [(0, 0)] Res6 = []
 \<and> aggregatePointsToHexFC [(0, 0), (0, 0)] Res6 \<noteq> []
 \<and> map hf_count (aggregatePointsToHexFC [(0, 0), (0, 0)] Res6) = [2]"
proof -
  have "\<not> (\<exists>f \<in> set (aggregatePointsToHexFC [(0, 0)] Res6). hf_cellId f = k)" for k
    using suppression_below_min_count [of "[(0, 0)]" Res6] by (simp add: pointsInCell_def)
  then have a: "aggregatePointsToHexFC [(0, 0)] Res6 = []"
    by (cases "aggregatePointsToHexFC [(0, 0)] Res6") auto
  have "\<exists>f \<in> set (aggregatePointsToHexFC [(0, 0), (0, 0)] Res6).
           hf_cellId f = pointCellId Res6 (0, 0)"
    using suppression_below_min_count [of "[(0, 0), (0, 0)]" Res6] by (simp add: pointsInCell_def)
  then have b: "aggregatePointsToHexFC [(0, 0), (0, 0)] Res6 \<noteq> []" by auto
  have c: "map hf_count (aggregatePointsToHexFC [(0, 0), (0, 0)] Res6) = [2]"
    by (simp add: aggregatePointsToHexFC_def binPoints_def addPoint_def Let_def
        bucketFeature_def split: prod.splits)
  show ?thesis using a b c by simp
qed

section \<open>Properties of the point-in-polygon test\<close>




lemma edgeIntersect_crossingX:
  "edgeIntersect p vi vj
   \<longleftrightarrow> ((snd vi > snd p) \<noteq> (snd vj > snd p)) \<and> fst p < crossingX (snd p) vi vj"
  by (simp add: edgeIntersect_def crossingX_def Let_def)

lemma edgeIntersect_straddle:
  "edgeIntersect p vi vj \<Longrightarrow> (snd vi > snd p) \<noteq> (snd vj > snd p)"
  by (simp add: edgeIntersect_crossingX)







lemma crossingEdges_straddle:
  "list_all (\<lambda>i. (snd (ring ! i) > snd p) \<noteq> (snd (ring ! prevIndex ring i) > snd p))
     (crossingEdges p ring)"
  by (auto simp: list_all_iff crossingEdges_def dest: edgeIntersect_straddle)
















section \<open>Properties of the halo\<close>

lemma getOr0_update: "getOr0 (AList.update k v m) n = (if n = k then v else getOr0 m n)"
  by (simp add: getOr0_def update_conv')

lemma keys_update: "fst ` set (AList.update k v m) = insert k (fst ` set m)"
  using dom_update[of k v m] by (simp add: dom_map_of_conv_image_fst)

lemma getOr0_haloNeighbor:
  "getOr0 (haloNeighbor cell halo nb est) n
   = (if n = nb \<and> nb \<noteq> cell then max (getOr0 est n) halo else getOr0 est n)"
  by (simp add: haloNeighbor_def Let_def getOr0_update)

lemma keys_haloNeighbor:
  "fst ` set (haloNeighbor cell halo nb est)
   = (if nb \<noteq> cell then insert nb (fst ` set est) else fst ` set est)"
  by (simp add: haloNeighbor_def Let_def keys_update)

lemma getOr0_fold_haloNeighbor:
  "getOr0 (fold (haloNeighbor cell halo) ns est) n
   = (if n \<in> set ns \<and> n \<noteq> cell then max (getOr0 est n) halo else getOr0 est n)"
proof (induction ns arbitrary: est)
  case Nil
  then show ?case by simp
next
  case (Cons nb ns)
  show ?case
    by (simp only: fold_simps Cons.IH getOr0_haloNeighbor) auto
qed

lemma keys_fold_haloNeighbor:
  "fst ` set (fold (haloNeighbor cell halo) ns est)
   = fst ` set est \<union> {n \<in> set ns. n \<noteq> cell}"
proof (induction ns arbitrary: est)
  case Nil
  then show ?case by simp
next
  case (Cons nb ns)
  show ?case
    by (simp only: fold_simps Cons.IH keys_haloNeighbor) auto
qed

lemma getOr0_haloCell:
  "getOr0 (haloCell h e est) n
   = (if 0 < snd e * 0.25 \<and> n \<in> set (gridDisk h (fst e) 1) \<and> n \<noteq> fst e
      then max (getOr0 est n) (snd e * 0.25) else getOr0 est n)"
  by (simp add: haloCell_def Let_def getOr0_fold_haloNeighbor not_le)

lemma keys_haloCell:
  "fst ` set (haloCell h e est)
   = fst ` set est \<union> {n. 0 < snd e * 0.25 \<and> n \<in> set (gridDisk h (fst e) 1) \<and> n \<noteq> fst e}"
  by (auto simp: haloCell_def Let_def keys_fold_haloNeighbor not_le)

lemma getOr0_fold_haloCell:
  "getOr0 (fold (haloCell h) cs est) n
   = fold max (map (\<lambda>e. snd e * 0.25) (haloSources h cs n)) (getOr0 est n)"
proof (induction cs arbitrary: est)
  case Nil
  then show ?case by (simp add: haloSources_def)
next
  case (Cons e cs)
  have "getOr0 (fold (haloCell h) (e # cs) est) n
        = fold max (map (\<lambda>e. snd e * 0.25) (haloSources h cs n)) (getOr0 (haloCell h e est) n)"
    by (simp only: fold_simps Cons.IH)
  then show ?case
    by (simp add: getOr0_haloCell haloSources_def max.commute)
qed

lemma keys_fold_haloCell:
  "fst ` set (fold (haloCell h) cs est) = fst ` set est \<union> {n. haloSources h cs n \<noteq> []}"
proof (induction cs arbitrary: est)
  case Nil
  then show ?case by (simp add: haloSources_def)
next
  case (Cons e cs)
  have "fst ` set (fold (haloCell h) (e # cs) est)
        = fst ` set (haloCell h e est) \<union> {n. haloSources h cs n \<noteq> []}"
    by (simp only: fold_simps Cons.IH)
  then show ?case
    by (auto simp: keys_haloCell haloSources_def)
qed

lemma fold_max_Max: "fold max xs (a::real) = Max (insert a (set xs))"
  using Max.set_eq_fold[of a xs] by simp

lemma haloEstimates_value:
  "getOr0 (haloEstimates h ce) n
   = Max (insert (getOr0 ce n) ((\<lambda>e. snd e * 0.25) ` set (haloSources h ce n)))"
  by (simp add: haloEstimates_def getOr0_fold_haloCell fold_max_Max)

lemma haloEstimates_keys:
  "fst ` set (haloEstimates h ce) = fst ` set ce \<union> {n. haloSources h ce n \<noteq> []}"
  by (simp add: haloEstimates_def keys_fold_haloCell)

lemma haloEstimates_bound:
  assumes "\<forall>e \<in> set (haloSources h ce n). snd e \<le> M"
  shows "getOr0 (haloEstimates h ce) n \<le> max (getOr0 ce n) (0.25 * M)"
proof -
  have "\<forall>v \<in> insert (getOr0 ce n) ((\<lambda>e. snd e * 0.25) ` set (haloSources h ce n)).
          v \<le> max (getOr0 ce n) (0.25 * M)"
    using assms by auto
  then show ?thesis unfolding haloEstimates_value by (subst Max_le_iff) auto
qed


text \<open>
  C8. In global-index binning every center cell spreads a halo of exactly a quarter of its
  own raw count into each cell of its disk other than itself, and a cell keeps the maximum
  of what it holds and the halo, not the sum: after the halo loop a cell holds the maximum
  of its own count (0 when it has none) and of the halos of the center cells adjacent to
  it, and the cells present are the center cells and the cells that a halo reaches. So no
  estimate exceeds the maximum of the own count and a quarter of the largest adjacent count.
\<close>

theorem halo_keeps_maximum:
  "getOr0 (haloEstimates h ce) n
     = Max (insert (getOr0 ce n) ((\<lambda>e. snd e * 0.25) ` set (haloSources h ce n)))
 \<and> fst ` set (haloEstimates h ce) = fst ` set ce \<union> {n. haloSources h ce n \<noteq> []}
 \<and> ((\<forall>e \<in> set (haloSources h ce n). snd e \<le> M)
       \<longrightarrow> getOr0 (haloEstimates h ce) n \<le> max (getOr0 ce n) (0.25 * M))"
  using haloEstimates_value haloEstimates_keys haloEstimates_bound by blast

lemma chainCell_4_5_6:
  "chainCell 4 = ''cxxxx''" "chainCell 5 = ''cxxxxx''" "chainCell 6 = ''cxxxxxx''"
  by (simp_all add: chainCell_def numeral_eq_Suc)

text \<open>
  On the chain, cell 5 lies between the center cells 4 (count 4) and 6 (count 8): it ends
  with the halo 2 of cell 6, not with the sum 3 of the two halos.
\<close>

theorem halo_keeps_maximum_witness:
  "map snd (haloSources chainH3 [(chainCell 4, 4), (chainCell 6, 8)] (chainCell 5)) = [4, 8]
 \<and> haloSources chainH3 [(chainCell 4, 4), (chainCell 6, 8)] (chainCell 5)
     = [(chainCell 4, 4), (chainCell 6, 8)]
 \<and> getOr0 (haloEstimates chainH3 [(chainCell 4, 4), (chainCell 6, 8)]) (chainCell 5) \<le> 2
 \<and> getOr0 (haloEstimates chainH3 [(chainCell 4, 4), (chainCell 6, 8)]) (chainCell 5) = 2"
proof -
  let ?ce = "[(chainCell 4, 4), (chainCell 6, 8)]"
  have src: "haloSources chainH3 ?ce (chainCell 5) = ?ce"
    by (simp add: haloSources_def chainH3_def chainDisk_def chainCell_4_5_6)
  then have b: "\<forall>e \<in> set (haloSources chainH3 ?ce (chainCell 5)). snd e \<le> 8"
    by simp
  have "getOr0 (haloEstimates chainH3 ?ce) (chainCell 5)
        \<le> max (getOr0 ?ce (chainCell 5)) (0.25 * 8)"
    using halo_keeps_maximum [of chainH3 ?ce "chainCell 5" 8] b by blast
  then have le: "getOr0 (haloEstimates chainH3 ?ce) (chainCell 5) \<le> 2"
    by (simp add: getOr0_def chainCell_4_5_6)
  have "getOr0 (haloEstimates chainH3 ?ce) (chainCell 5)
        = Max (insert (getOr0 ?ce (chainCell 5))
                ((\<lambda>e. snd e * 0.25) ` set (haloSources chainH3 ?ce (chainCell 5))))"
    using halo_keeps_maximum [of chainH3 ?ce "chainCell 5" 8] by blast
  then have "getOr0 (haloEstimates chainH3 ?ce) (chainCell 5) = 2"
    unfolding src by (simp add: getOr0_def chainCell_4_5_6)
  then show ?thesis using src b le by simp
qed

section \<open>Properties of the annotation cache\<close>

lemma annotateFeature_hit:
  assumes "c (cellKey js v f) = Some E"
  shows "annotateFeature js pois v f c
         = (f\<lparr>poiCounts := Some (e_poiCounts E), estimated := e_estimated E,
              greedLevel := (if isFinite (e_greedLevel E) then finVal (e_greedLevel E)
                             else real_of_int (greedLevelFromEstimated (e_estimated E)
                                     (case resolution f of Some r \<Rightarrow> r | None \<Rightarrow> 6)))\<rparr>, c)"
  using assms by (simp add: annotateFeature_def cellKey_def Let_def)


lemma annotateFeature_entry:
  "\<exists>E. snd (annotateFeature js pois v f c) (cellKey js v f) = Some E"
  by (auto simp: annotateFeature_def cellKey_def Let_def split: option.splits)














lemma normalizePoiKind_synagogue: "normalizePoiKind (Some ''synagogue'') = Some synagogue"
  by (simp add: normalizePoiKind_def trim_def isSpace_def toLowerCase_def toLowerChar_def)










section \<open>The example scenario\<close>

lemma update_absent: "k \<notin> fst ` set al \<Longrightarrow> AList.update k v al = al @ [(k, v)]"
  by (induction al) auto

lemma getOr0_absent: "k \<notin> fst ` set al \<Longrightarrow> getOr0 al k = 0"
  by (simp add: getOr0_def map_of_eq_None_iff[symmetric] del: map_of_eq_None_iff)

lemma addCenter_examplePoi_first:
  "addCenter h res (examplePoi lon lat) [] = [(latLngToCell h lat lon (resNum res), 1)]"
  by (simp add: addCenter_def examplePoi_def Let_def getOr0_def)

lemma addCenter_examplePoi_next:
  "addCenter h res (examplePoi lon lat) [(latLngToCell h lat lon (resNum res), v)]
   = [(latLngToCell h lat lon (resNum res), v + 1)]"
  by (simp add: addCenter_def examplePoi_def Let_def getOr0_def)

lemma fold_addCenter_replicate:
  "fold (addCenter h res) (replicate n (examplePoi lon lat)) [(latLngToCell h lat lon (resNum res), v)]
   = [(latLngToCell h lat lon (resNum res), v + real n)]"
proof (induction n arbitrary: v)
  case 0
  then show ?case by simp
next
  case (Suc n)
  have "fold (addCenter h res) (replicate (Suc n) (examplePoi lon lat)) [(latLngToCell h lat lon (resNum res), v)]
      = fold (addCenter h res) (replicate n (examplePoi lon lat)) [(latLngToCell h lat lon (resNum res), v + 1)]"
    by (simp add: addCenter_examplePoi_next del: fold_replicate)
  also have "\<dots> = [(latLngToCell h lat lon (resNum res), v + 1 + real n)]"
    by (rule Suc.IH)
  finally show ?case by (simp add: add.assoc add.commute)
qed

lemma centerEstimatesOf_replicate:
  "centerEstimatesOf h (replicate (Suc n) (examplePoi lon lat)) res
   = [(latLngToCell h lat lon (resNum res), real (Suc n))]"
proof -
  have "centerEstimatesOf h (replicate (Suc n) (examplePoi lon lat)) res
      = fold (addCenter h res) (replicate n (examplePoi lon lat)) [(latLngToCell h lat lon (resNum res), 1)]"
    by (simp add: centerEstimatesOf_def addCenter_examplePoi_first del: fold_replicate)
  also have "\<dots> = [(latLngToCell h lat lon (resNum res), 1 + real n)]"
    by (rule fold_addCenter_replicate)
  finally show ?thesis by (simp add: add.commute)
qed

lemma fold_haloNeighbor_fresh:
  assumes "distinct ns" "halo > 0" "set ns \<inter> fst ` set est \<subseteq> {cell}"
  shows "fold (haloNeighbor cell halo) ns est
         = est @ map (\<lambda>n. (n, halo)) (filter (\<lambda>n. n \<noteq> cell) ns)"
  using assms
proof (induction ns arbitrary: est)
  case Nil
  then show ?case by simp
next
  case (Cons n ns)
  show ?case
  proof (cases "n = cell")
    case True
    have "fold (haloNeighbor cell halo) (n # ns) est = fold (haloNeighbor cell halo) ns est"
      using True by (simp add: haloNeighbor_def)
    also have "\<dots> = est @ map (\<lambda>n. (n, halo)) (filter (\<lambda>n. n \<noteq> cell) ns)"
      by (rule Cons.IH) (use Cons.prems in auto)
    finally show ?thesis using True by simp
  next
    case False
    then have nk: "n \<notin> fst ` set est" using Cons.prems(3) by auto
    have step: "haloNeighbor cell halo n est = est @ [(n, halo)]"
      using False nk Cons.prems(2) by (simp add: haloNeighbor_def Let_def getOr0_absent update_absent)
    have "fold (haloNeighbor cell halo) (n # ns) est
          = fold (haloNeighbor cell halo) ns (est @ [(n, halo)])"
      by (simp add: step)
    also have "\<dots> = (est @ [(n, halo)]) @ map (\<lambda>n. (n, halo)) (filter (\<lambda>n. n \<noteq> cell) ns)"
      by (rule Cons.IH) (use Cons.prems in auto)
    finally show ?thesis using False by simp
  qed
qed

lemma haloEstimates_single:
  assumes "distinct (gridDisk h cell 1)" "0 < v"
  shows "haloEstimates h [(cell, v)]
         = (cell, v) # map (\<lambda>n. (n, v * 0.25)) (filter (\<lambda>n. n \<noteq> cell) (gridDisk h cell 1))"
proof -
  have "fold (haloNeighbor cell (v * 0.25)) (gridDisk h cell 1) [(cell, v)]
        = [(cell, v)] @ map (\<lambda>n. (n, v * 0.25)) (filter (\<lambda>n. n \<noteq> cell) (gridDisk h cell 1))"
    by (rule fold_haloNeighbor_fresh) (use assms in auto)
  then show ?thesis using assms(2) by (simp add: haloEstimates_def haloCell_def Let_def)
qed

lemma sparseRowsLoop_uncapped:
  "p + length es \<le> MAX_SPARSE_HEX_CELLS \<Longrightarrow>
   sparseRowsLoop h res es p = (List.map_filter (sparseRow h res) es, False)"
proof (induction es arbitrary: p)
  case Nil
  then show ?case by (simp add: List.map_filter_simps)
next
  case (Cons e es)
  then have "\<not> MAX_SPARSE_HEX_CELLS \<le> p" by simp
  moreover have "sparseRowsLoop h res es (p + 1) = (List.map_filter (sparseRow h res) es, False)"
    by (rule Cons.IH) (use Cons.prems in simp)
  ultimately show ?case by (simp add: List.map_filter_simps split: option.splits)
qed


lemma annotateFeature_keeps:
  "tier (fst (annotateFeature js pois v f c)) = tier f
 \<and> cellId (fst (annotateFeature js pois v f c)) = cellId f"
  by (simp add: annotateFeature_def Let_def split: option.splits)

lemma annotateLoop_keeps:
  "map tier (fst (annotateLoop js pois v fs c)) = map tier fs
 \<and> map cellId (fst (annotateLoop js pois v fs c)) = map cellId fs"
  by (induction fs arbitrary: c) (simp_all add: Let_def annotateFeature_keeps)

lemma annotateLoop_length: "length (fst (annotateLoop js pois v fs c)) = length fs"
  by (induction fs arbitrary: c) (simp_all add: Let_def)

lemma annotate_keeps:
  "map tier (fst (annotateHexesWithPois js fs pois v c)) = map tier fs
 \<and> map cellId (fst (annotateHexesWithPois js fs pois v c)) = map cellId fs"
  by (simp add: annotateHexesWithPois_def annotateLoop_keeps)

lemma annotate_hd:
  "fs \<noteq> [] \<Longrightarrow>
   hd (fst (annotateHexesWithPois js fs pois v c))
   = fst (annotateFeature js (poiFeaturesOf pois) v (hd fs) c)"
  by (cases fs) (simp_all add: annotateHexesWithPois_def Let_def)

lemma poiFeaturesOf_replicate:
  "poiFeaturesOf (replicate n (examplePoi lon lat)) = replicate n ((lon, lat), synagogue)"
  by (induction n) (simp_all add: examplePoi_def normalizePoiKind_synagogue)

lemma fold_count_replicate:
  "fold (\<lambda>poi counts. if P (fst poi) then counts(snd poi := counts (snd poi) + 1) else counts)
        (replicate n (p, k)) c0
   = (if P p then c0(k := c0 k + n) else c0)"
proof (induction n arbitrary: c0)
  case 0
  then show ?case by simp
next
  case (Suc n)
  show ?case using Suc.IH by (simp del: fold_replicate)
qed

lemma countPoisInside_replicate:
  "pointInGeoJsonPolygon p (Some g) \<Longrightarrow>
   countPoisInside (replicate n (p, k)) (Some g) = createEmptyPoiCounts(k := n)"
  using fold_count_replicate[of "\<lambda>q. pointInGeoJsonPolygon q (Some g)" n p k createEmptyPoiCounts]
  by (simp add: countPoisInside_def createEmptyPoiCounts_def
      del: fold_replicate pointInGeoJsonPolygon.simps)

lemma estimated_ten_synagogues:
  "getEstimatedFromPoiCounts (createEmptyPoiCounts(synagogue := 10)) = 2500"
  by (simp add: getEstimatedFromPoiCounts_def ALL_POI_KINDS_def createEmptyPoiCounts_def
      Math_round_def)

lemma level_2500_res5: "greedLevelFromEstimated 2500 5 = 100"
  by (simp add: greedLevelFromEstimated_def GREED_MAX_BY_RES_def Math_round_def clamp_def)

lemma tier_10: "tierForEstimate 10 = notable"
  by (simp add: tierForEstimate_def)

lemma tier_halo: "tierForEstimate (5/2) = low"
  by (simp add: tierForEstimate_def)

lemma sparseRow_home:
  assumes "4 \<le> length (cellToBoundary h cell)"
  shows "\<exists>r. sparseRow h res (cell, 10) = Some r \<and> r_cell r = cell \<and> r_estimate r = 10
            \<and> r_tier r = notable \<and> r_boundary r = cellToBoundary h cell"
  using assms by (simp add: sparseRow_def Let_def tier_10 not_less)

lemma sparseRow_halo:
  "sparseRow h res (n, 5/2)
   = (if length (cellToBoundary h n) < 4 then None
      else Some \<lparr>r_cell = n, r_boundary = cellToBoundary h n, r_estimate = 5/2,
                 r_areaKm2 = getCellAreaKm2 h n res,
                 r_density = (if getCellAreaKm2 h n res > 0 then (5/2) / getCellAreaKm2 h n res else 0),
                 r_tier = low\<rparr>)"
  by (auto simp: sparseRow_def Let_def tier_halo)


lemma build_fc:
  "fc (fst (buildSparseHexesFromPois h fs res))
   = map (sparseFeature res (p95 (fst (buildSparseHexesFromPois h fs res)))) (sparseRowsOf h fs res)"
proof (cases "fs = [] \<or> centerEstimatesOf h fs res = []")
  case True
  then have "centerEstimatesOf h fs res = []" by (auto simp: centerEstimatesOf_def)
  then show ?thesis
    by (simp add: buildSparseHexesFromPois_def sparseRowsOf_def haloEstimates_def)
next
  case False
  then show ?thesis by (simp add: buildSparseHexesFromPois_def sparseRowsOf_def Let_def)
qed

lemma build_console:
  "snd (buildSparseHexesFromPois h fs res) \<noteq> []
   \<longleftrightarrow> snd (sparseRowsLoop h res (haloEstimates h (centerEstimatesOf h fs res)) 0)"
proof (cases "fs = [] \<or> centerEstimatesOf h fs res = []")
  case True
  then have "centerEstimatesOf h fs res = []" by (auto simp: centerEstimatesOf_def)
  then show ?thesis
    by (simp add: buildSparseHexesFromPois_def haloEstimates_def)
next
  case False
  then show ?thesis by (simp add: buildSparseHexesFromPois_def Let_def)
qed

lemma sparseFeature_fields:
  "tier (sparseFeature res p r) = r_tier r \<and> cellId (sparseFeature res p r) = Some (r_cell r)
 \<and> geometry (sparseFeature res p r) = Some (Polygon [r_boundary r])
 \<and> resolution (sparseFeature res p r) = Some (resNum res)
 \<and> estimated (sparseFeature res p r) = r_estimate r"
  by (simp add: sparseFeature_def Let_def)

lemma map_filter_halo_rows:
  "List.map_filter (sparseRow h res) (map (\<lambda>n. (n, 5/2)) ns)
   = map (\<lambda>n. \<lparr>r_cell = n, r_boundary = cellToBoundary h n, r_estimate = 5/2,
                 r_areaKm2 = getCellAreaKm2 h n res,
                 r_density = (if getCellAreaKm2 h n res > 0 then (5/2) / getCellAreaKm2 h n res else 0),
                 r_tier = low\<rparr>)
         (filter (\<lambda>n. 4 \<le> length (cellToBoundary h n)) ns)"
  by (induction ns) (simp_all add: List.map_filter_simps sparseRow_halo not_less)

lemma tenPoints_rows:
  assumes "4 \<le> length (cellToBoundary h (latLngToCell h lat lon 5))"
    and "distinct (gridDisk h (latLngToCell h lat lon 5) 1)"
    and "length (gridDisk h (latLngToCell h lat lon 5) 1) < MAX_SPARSE_HEX_CELLS"
  shows "\<exists>r. sparseRowsOf h (tenPoints lon lat) Res5
           = r # map (\<lambda>n. \<lparr>r_cell = n, r_boundary = cellToBoundary h n, r_estimate = 5/2,
                 r_areaKm2 = getCellAreaKm2 h n Res5,
                 r_density = (if getCellAreaKm2 h n Res5 > 0 then (5/2) / getCellAreaKm2 h n Res5 else 0),
                 r_tier = low\<rparr>) (haloNeighbours h (latLngToCell h lat lon 5))
         \<and> r_cell r = latLngToCell h lat lon 5 \<and> r_estimate r = 10 \<and> r_tier r = notable
         \<and> r_boundary r = cellToBoundary h (latLngToCell h lat lon 5)"
   and "\<not> snd (sparseRowsLoop h Res5 (haloEstimates h (centerEstimatesOf h (tenPoints lon lat) Res5)) 0)"
proof -
  let ?cell = "latLngToCell h lat lon 5"
  let ?nb = "filter (\<lambda>n. n \<noteq> ?cell) (gridDisk h ?cell 1)"
  have ce: "centerEstimatesOf h (tenPoints lon lat) Res5 = [(?cell, 10)]"
    using centerEstimatesOf_replicate[of h 9 lon lat Res5] by (simp add: tenPoints_def)
  have est: "haloEstimates h [(?cell, 10)] = (?cell, 10) # map (\<lambda>n. (n, 5/2)) ?nb"
    using haloEstimates_single[OF assms(2), of 10] by simp
  have len: "0 + length ((?cell, 10) # map (\<lambda>n. (n, 5/2)) ?nb) \<le> MAX_SPARSE_HEX_CELLS"
    using assms(3) length_filter_le[of "\<lambda>n. n \<noteq> ?cell" "gridDisk h ?cell 1"]
    by (simp del: length_filter_le)
  have loop: "sparseRowsLoop h Res5 ((?cell, 10) # map (\<lambda>n. (n, 5/2)) ?nb) 0
        = (List.map_filter (sparseRow h Res5) ((?cell, 10) # map (\<lambda>n. (n, 5/2)) ?nb), False)"
    by (rule sparseRowsLoop_uncapped[OF len])
  from sparseRow_home[OF assms(1), of Res5] obtain r where
    r: "sparseRow h Res5 (?cell, 10) = Some r" "r_cell r = ?cell" "r_estimate r = 10"
       "r_tier r = notable" "r_boundary r = cellToBoundary h ?cell" by blast
  have nb: "filter (\<lambda>n. 4 \<le> length (cellToBoundary h n)) ?nb = haloNeighbours h ?cell"
    by (simp add: haloNeighbours_def conj_commute)
  have "sparseRowsOf h (tenPoints lon lat) Res5
        = r # List.map_filter (sparseRow h Res5) (map (\<lambda>n. (n, 5/2)) ?nb)"
    unfolding sparseRowsOf_def ce est loop by (simp add: List.map_filter_simps r(1))
  then show "\<exists>r. sparseRowsOf h (tenPoints lon lat) Res5
           = r # map (\<lambda>n. \<lparr>r_cell = n, r_boundary = cellToBoundary h n, r_estimate = 5/2,
                 r_areaKm2 = getCellAreaKm2 h n Res5,
                 r_density = (if getCellAreaKm2 h n Res5 > 0 then (5/2) / getCellAreaKm2 h n Res5 else 0),
                 r_tier = low\<rparr>) (haloNeighbours h (latLngToCell h lat lon 5))
         \<and> r_cell r = latLngToCell h lat lon 5 \<and> r_estimate r = 10 \<and> r_tier r = notable
         \<and> r_boundary r = cellToBoundary h (latLngToCell h lat lon 5)"
    using r by (simp add: map_filter_halo_rows haloNeighbours_def)
  show "\<not> snd (sparseRowsLoop h Res5 (haloEstimates h (centerEstimatesOf h (tenPoints lon lat) Res5)) 0)"
    unfolding ce est loop by simp
qed


lemma annotateFeature_miss_home:
  assumes "c (cellKey js v f) = None" "geometry f = Some (Polygon [b])" "b \<noteq> []"
    "pointInRing p b" "resolution f = Some 5"
  shows "fst (annotateFeature js (replicate 10 (p, synagogue)) v f c)
         = f\<lparr>poiCounts := Some (createEmptyPoiCounts(synagogue := 10)), estimated := 2500,
              greedLevel := 100\<rparr>"
proof -
  have "pointInGeoJsonPolygon p (Some (Polygon [b]))" using assms(3,4) by (simp add: Let_def)
  then have "countPoisInside (replicate 10 (p, synagogue)) (Some (Polygon [b]))
             = createEmptyPoiCounts(synagogue := 10)"
    by (rule countPoisInside_replicate)
  then show ?thesis using assms(1,2,5)
    by (simp add: annotateFeature_def cellKey_def Let_def estimated_ten_synagogues level_2500_res5)
qed

lemma tenPoints_output:
  assumes "4 \<le> length (cellToBoundary h (latLngToCell h lat lon 5))"
    and "pointInRing (lon, lat) (cellToBoundary h (latLngToCell h lat lon 5))"
    and "distinct (gridDisk h (latLngToCell h lat lon 5) 1)"
    and "length (gridDisk h (latLngToCell h lat lon 5) 1) < MAX_SPARSE_HEX_CELLS"
  shows "length (tenPointsOutput h js v lon lat)
           = 1 + length (haloNeighbours h (latLngToCell h lat lon 5))
       \<and> cellId (hd (tenPointsOutput h js v lon lat)) = Some (latLngToCell h lat lon 5)
       \<and> poiCounts (hd (tenPointsOutput h js v lon lat))
           = Some (createEmptyPoiCounts(synagogue := 10))
       \<and> estimated (hd (tenPointsOutput h js v lon lat)) = 2500
       \<and> tier (hd (tenPointsOutput h js v lon lat)) = notable
       \<and> greedLevel (hd (tenPointsOutput h js v lon lat)) = 100
       \<and> map tier (tl (tenPointsOutput h js v lon lat))
           = replicate (length (haloNeighbours h (latLngToCell h lat lon 5))) low
       \<and> map cellId (tl (tenPointsOutput h js v lon lat))
           = map Some (haloNeighbours h (latLngToCell h lat lon 5))
       \<and> snd (buildSparseHexesFromPois h (tenPoints lon lat) Res5) = []"
proof -
  let ?cell = "latLngToCell h lat lon 5"
  let ?build = "buildSparseHexesFromPois h (tenPoints lon lat) Res5"
  let ?out = "tenPointsOutput h js v lon lat"
  let ?p = "p95 (fst ?build)"
  let ?halo = "\<lambda>n. \<lparr>r_cell = n, r_boundary = cellToBoundary h n, r_estimate = 5/2,
                 r_areaKm2 = getCellAreaKm2 h n Res5,
                 r_density = (if getCellAreaKm2 h n Res5 > 0 then (5/2) / getCellAreaKm2 h n Res5 else 0),
                 r_tier = low\<rparr>"
  from tenPoints_rows(1)[OF assms(1,3,4)] obtain r where
    rows: "sparseRowsOf h (tenPoints lon lat) Res5 = r # map ?halo (haloNeighbours h ?cell)"
    and r: "r_cell r = ?cell" "r_estimate r = 10" "r_tier r = notable"
           "r_boundary r = cellToBoundary h ?cell"
    by blast
  have fcs: "fc (fst ?build)
             = sparseFeature Res5 ?p r # map (sparseFeature Res5 ?p) (map ?halo (haloNeighbours h ?cell))"
    by (simp only: build_fc rows list.map)
  have keeps: "map tier ?out = map tier (fc (fst ?build))" "map cellId ?out = map cellId (fc (fst ?build))"
    unfolding tenPointsOutput_def using annotate_keeps by blast+
  have tiers: "map tier ?out = notable # replicate (length (haloNeighbours h ?cell)) low"
    unfolding keeps fcs by (simp add: sparseFeature_fields r comp_def map_replicate_const)
  have ids: "map cellId ?out = Some ?cell # map Some (haloNeighbours h ?cell)"
    unfolding keeps fcs by (simp add: sparseFeature_fields r comp_def)
  have len: "length ?out = 1 + length (haloNeighbours h ?cell)"
    using arg_cong[OF tiers, of length] by simp
  then have ne: "?out \<noteq> []" by auto
  have hd_tier: "tier (hd ?out) = notable" and tl_tier: "map tier (tl ?out) = replicate (length (haloNeighbours h ?cell)) low"
    using tiers ne by (cases ?out; simp)+
  have hd_id: "cellId (hd ?out) = Some ?cell" and tl_id: "map cellId (tl ?out) = map Some (haloNeighbours h ?cell)"
    using ids ne by (cases ?out; simp)+
  have b: "cellToBoundary h ?cell \<noteq> []" using assms(1) by auto
  have pf: "poiFeaturesOf (tenPoints lon lat) = replicate 10 ((lon, lat), synagogue)"
    by (simp add: tenPoints_def poiFeaturesOf_replicate)
  have "hd ?out = fst (annotateFeature js (poiFeaturesOf (tenPoints lon lat)) v (hd (fc (fst ?build))) emptyCache)"
    unfolding tenPointsOutput_def by (rule annotate_hd) (simp add: fcs)
  also have "\<dots> = fst (annotateFeature js (replicate 10 ((lon, lat), synagogue)) v (sparseFeature Res5 ?p r) emptyCache)"
    by (simp only: fcs pf list.sel)
  also have "\<dots> = (sparseFeature Res5 ?p r)\<lparr>poiCounts := Some (createEmptyPoiCounts(synagogue := 10)),
                       estimated := 2500, greedLevel := 100\<rparr>"
    by (rule annotateFeature_miss_home[where b="cellToBoundary h ?cell"])
       (simp_all add: emptyCache_def sparseFeature_fields r b assms(2))
  finally have hd_eq: "hd ?out = (sparseFeature Res5 ?p r)\<lparr>poiCounts := Some (createEmptyPoiCounts(synagogue := 10)),
                       estimated := 2500, greedLevel := 100\<rparr>" .
  have console: "snd ?build = []"
    using build_console[of h "tenPoints lon lat" Res5] tenPoints_rows(2)[OF assms(1,3,4)] by blast
  show ?thesis using len hd_id hd_tier tl_tier tl_id console by (simp add: hd_eq)
qed


lemma set_update_subset: "set (AList.update k v al) \<subseteq> insert (k, v) (set al)"
  by (induction al) auto

lemma getOr0_bound:
  assumes "\<forall>e \<in> set est. snd e \<le> B" "0 \<le> B"
  shows "getOr0 est n \<le> B"
proof (cases "map_of est n")
  case None
  then show ?thesis using assms(2) by (simp add: getOr0_def)
next
  case (Some x)
  then have "(n, x) \<in> set est" by (rule map_of_SomeD)
  then have "x \<le> B" using assms(1) by force
  then show ?thesis using Some by (simp add: getOr0_def)
qed

lemma haloNeighbor_bound:
  assumes "\<forall>e \<in> set est. snd e \<le> B" "0 \<le> B" "halo \<le> B"
  shows "\<forall>e \<in> set (haloNeighbor cell halo n est). snd e \<le> B"
proof (cases "n = cell")
  case True
  then show ?thesis using assms(1) by (simp add: haloNeighbor_def)
next
  case False
  have g: "max (getOr0 est n) halo \<le> B" using getOr0_bound[OF assms(1,2)] assms(3) by simp
  have "set (haloNeighbor cell halo n est) \<subseteq> insert (n, max (getOr0 est n) halo) (set est)"
    using False set_update_subset by (simp add: haloNeighbor_def Let_def)
  then show ?thesis using assms(1) g by auto
qed

lemma fold_haloNeighbor_bound:
  assumes "\<forall>e \<in> set est. snd e \<le> B" "0 \<le> B" "halo \<le> B"
  shows "\<forall>e \<in> set (fold (haloNeighbor cell halo) ns est). snd e \<le> B"
  using assms(1)
proof (induction ns arbitrary: est)
  case Nil
  then show ?case by simp
next
  case (Cons n ns)
  have "\<forall>e \<in> set (haloNeighbor cell halo n est). snd e \<le> B"
    by (rule haloNeighbor_bound[OF Cons.prems assms(2,3)])
  from Cons.IH[OF this] show ?case by simp
qed

lemma haloCell_bound:
  assumes "\<forall>e \<in> set est. snd e \<le> B" "0 \<le> B" "snd c \<le> B"
  shows "\<forall>e \<in> set (haloCell h c est). snd e \<le> B"
proof (cases "snd c * 0.25 \<le> 0")
  case True
  then show ?thesis using assms(1) by (simp add: haloCell_def Let_def)
next
  case False
  then have "snd c * 0.25 \<le> B" using assms(3) by simp
  from fold_haloNeighbor_bound[OF assms(1,2) this]
  show ?thesis using False by (simp add: haloCell_def Let_def)
qed

lemma fold_haloCell_bound:
  assumes "\<forall>e \<in> set est. snd e \<le> B" "0 \<le> B" "\<forall>c \<in> set cs. snd c \<le> B"
  shows "\<forall>e \<in> set (fold (haloCell h) cs est). snd e \<le> B"
  using assms(1,3)
proof (induction cs arbitrary: est)
  case Nil
  then show ?case by simp
next
  case (Cons c cs)
  have "\<forall>e \<in> set (haloCell h c est). snd e \<le> B"
    by (rule haloCell_bound[OF Cons.prems(1) assms(2)]) (use Cons.prems(2) in simp)
  from Cons.IH[OF this] Cons.prems(2) show ?case by simp
qed

lemma haloEstimates_bound_all:
  assumes "0 \<le> B" "\<forall>c \<in> set ce. snd c \<le> B"
  shows "\<forall>e \<in> set (haloEstimates h ce). snd e \<le> B"
  unfolding haloEstimates_def by (rule fold_haloCell_bound[OF assms(2,1,2)])

lemma sparseRowsLoop_rows:
  "r \<in> set (fst (sparseRowsLoop h res es p)) \<Longrightarrow> \<exists>e \<in> set es. sparseRow h res e = Some r"
proof (induction es arbitrary: p)
  case Nil
  then show ?case by simp
next
  case (Cons e es)
  show ?case
  proof (cases "MAX_SPARSE_HEX_CELLS \<le> p")
    case True
    then show ?thesis using Cons.prems by simp
  next
    case False
    show ?thesis
    proof (cases "sparseRow h res e")
      case None
      then have "r \<in> set (fst (sparseRowsLoop h res es (p + 1)))"
        using Cons.prems False by (simp add: Let_def)
      from Cons.IH[OF this] show ?thesis by auto
    next
      case (Some r')
      then have "r = r' \<or> r \<in> set (fst (sparseRowsLoop h res es (p + 1)))"
        using Cons.prems False by (simp add: Let_def)
      then show ?thesis using Some Cons.IH by auto
    qed
  qed
qed

lemma sparseRow_not_significant:
  assumes "sparseRow h res e = Some r" "snd e < 16"
  shows "r_tier r \<noteq> significant"
proof -
  have "max 0 (min 10000 (snd e)) < 16" using assms(2) by (simp add: max_def min_def)
  then have "\<not> 16 \<le> max 0 (min 10000 (snd e))" by (simp only: not_le)
  then have "tierForEstimate (max 0 (min 10000 (snd e))) \<noteq> significant"
    unfolding tierForEstimate_def by (simp only: if_False) simp
  moreover have "r_tier r = tierForEstimate (max 0 (min 10000 (snd e)))"
    using assms(1) by (auto simp: sparseRow_def Let_def split: if_splits)
  ultimately show ?thesis by simp
qed

lemma tenPoints_never_significant:
  "\<forall>f \<in> set (tenPointsOutput h js v lon lat). tier f \<noteq> significant"
proof -
  let ?ce = "centerEstimatesOf h (tenPoints lon lat) Res5"
  have ce: "?ce = [(latLngToCell h lat lon 5, 10)]"
    using centerEstimatesOf_replicate[of h 9 lon lat Res5] by (simp add: tenPoints_def)
  have "\<forall>e \<in> set (haloEstimates h ?ce). snd e \<le> 10"
    by (rule haloEstimates_bound_all) (simp_all add: ce)
  then have small: "\<forall>e \<in> set (haloEstimates h ?ce). snd e < 16" by fastforce
  have rows: "\<forall>r \<in> set (sparseRowsOf h (tenPoints lon lat) Res5). r_tier r \<noteq> significant"
  proof
    fix r assume "r \<in> set (sparseRowsOf h (tenPoints lon lat) Res5)"
    then obtain e where "e \<in> set (haloEstimates h ?ce)" "sparseRow h Res5 e = Some r"
      unfolding sparseRowsOf_def using sparseRowsLoop_rows by blast
    then show "r_tier r \<noteq> significant" using small sparseRow_not_significant by blast
  qed
  have "map tier (tenPointsOutput h js v lon lat)
        = map r_tier (sparseRowsOf h (tenPoints lon lat) Res5)"
    unfolding tenPointsOutput_def
    by (simp add: annotate_keeps build_fc sparseFeature_fields comp_def)
  then have "set (map tier (tenPointsOutput h js v lon lat))
        = set (map r_tier (sparseRowsOf h (tenPoints lon lat) Res5))" by simp
  then have "tier ` set (tenPointsOutput h js v lon lat)
        = r_tier ` set (sparseRowsOf h (tenPoints lon lat) Res5)" by simp
  then have img: "tier ` set (tenPointsOutput h js v lon lat)
        \<subseteq> r_tier ` set (sparseRowsOf h (tenPoints lon lat) Res5)" by simp
  show ?thesis
  proof
    fix f assume "f \<in> set (tenPointsOutput h js v lon lat)"
    then have "tier f \<in> r_tier ` set (sparseRowsOf h (tenPoints lon lat) Res5)"
      using img by blast
    then obtain r where "r \<in> set (sparseRowsOf h (tenPoints lon lat) Res5)" "tier f = r_tier r"
      by blast
    then show "tier f \<noteq> significant" using rows by simp
  qed
qed

lemma chain_facts:
  "latLngToCell chainH3 (1/2) (11/2) 5 = ''cxxxxx''"
  "cellToBoundary chainH3 ''cxxxxx'' = unitSquare 5"
  "gridDisk chainH3 ''cxxxxx'' 1 = [''cxxxxx'', ''cxxxxxx'', ''cxxxx'']"
  "haloNeighbours chainH3 ''cxxxxx'' = [''cxxxxxx'', ''cxxxx'']"
  by (simp_all add: chainH3_def chainCell_def chainBoundary_def chainDisk_def unitSquare_def
      haloNeighbours_def numeral_eq_Suc)

lemma chain_point_inside: "pointInRing (11/2, 1/2) (unitSquare 5)"
  by (simp add: pointInRing_def unitSquare_def upt_rec edgeIntersect_def)


text \<open>
  C1, as amended. Ten points of kind synagogue (weight 250) at one coordinate, built at
  resolution 5 and annotated: when the home cell of the index has a boundary that contains
  the point, the first cell of the result is the home cell, with 10 points counted, the
  weighted estimate 2500, the tier notable (a count of 10 is below the 16 of significant)
  and the level 100. It is followed by one halo cell of tier low for each neighbour of the
  home cell that has a boundary, so the result is one cell only when there is no such
  neighbour. The cap is not reached.
\<close>

theorem ten_points_scenario:
  assumes "4 \<le> length (cellToBoundary h (latLngToCell h lat lon 5))"
    and "pointInRing (lon, lat) (cellToBoundary h (latLngToCell h lat lon 5))"
    and "distinct (gridDisk h (latLngToCell h lat lon 5) 1)"
    and "length (gridDisk h (latLngToCell h lat lon 5) 1) < MAX_SPARSE_HEX_CELLS"
  shows "length (tenPointsOutput h js v lon lat)
           = 1 + length (haloNeighbours h (latLngToCell h lat lon 5))
       \<and> cellId (hd (tenPointsOutput h js v lon lat)) = Some (latLngToCell h lat lon 5)
       \<and> poiCounts (hd (tenPointsOutput h js v lon lat))
           = Some (createEmptyPoiCounts(synagogue := 10))
       \<and> estimated (hd (tenPointsOutput h js v lon lat)) = 2500
       \<and> tier (hd (tenPointsOutput h js v lon lat)) = notable
       \<and> greedLevel (hd (tenPointsOutput h js v lon lat)) = 100
       \<and> map tier (tl (tenPointsOutput h js v lon lat))
           = replicate (length (haloNeighbours h (latLngToCell h lat lon 5))) low
       \<and> map cellId (tl (tenPointsOutput h js v lon lat))
           = map Some (haloNeighbours h (latLngToCell h lat lon 5))
       \<and> snd (buildSparseHexesFromPois h (tenPoints lon lat) Res5) = []"
  using assms by (rule tenPoints_output)

theorem ten_points_scenario_witness:
  "4 \<le> length (cellToBoundary chainH3 (latLngToCell chainH3 (1/2) (11/2) 5))
 \<and> pointInRing (11/2, 1/2) (cellToBoundary chainH3 (latLngToCell chainH3 (1/2) (11/2) 5))
 \<and> distinct (gridDisk chainH3 (latLngToCell chainH3 (1/2) (11/2) 5) 1)
 \<and> length (gridDisk chainH3 (latLngToCell chainH3 (1/2) (11/2) 5) 1) < MAX_SPARSE_HEX_CELLS
 \<and> length (tenPointsOutput chainH3 plainStringify ''v'' (11/2) (1/2)) = 3
 \<and> cellId (hd (tenPointsOutput chainH3 plainStringify ''v'' (11/2) (1/2))) = Some ''cxxxxx''
 \<and> estimated (hd (tenPointsOutput chainH3 plainStringify ''v'' (11/2) (1/2))) = 2500
 \<and> tier (hd (tenPointsOutput chainH3 plainStringify ''v'' (11/2) (1/2))) = notable
 \<and> greedLevel (hd (tenPointsOutput chainH3 plainStringify ''v'' (11/2) (1/2))) = 100"
proof -
  have h: "4 \<le> length (cellToBoundary chainH3 (latLngToCell chainH3 (1/2) (11/2) 5))"
    "pointInRing (11/2, 1/2) (cellToBoundary chainH3 (latLngToCell chainH3 (1/2) (11/2) 5))"
    "distinct (gridDisk chainH3 (latLngToCell chainH3 (1/2) (11/2) 5) 1)"
    "length (gridDisk chainH3 (latLngToCell chainH3 (1/2) (11/2) 5) 1) < MAX_SPARSE_HEX_CELLS"
    unfolding chain_facts
    by (simp_all add: chain_point_inside MAX_SPARSE_HEX_CELLS_def)
       (simp add: unitSquare_def)
  from ten_points_scenario [OF h, of plainStringify "''v''"] h
  show ?thesis by (simp add: chain_facts)
qed

text \<open>
  The claim as stated fails. On the chain the result has three cells, the home cell and its
  two neighbours, and the home cell has the tier notable. Whatever the index, no cell of the
  result has the tier significant (lemma \<open>tenPoints_never_significant\<close>).
\<close>

theorem ten_points_scenario_counterexample:
  "length (tenPointsOutput chainH3 plainStringify ''v'' (11/2) (1/2)) \<noteq> 1
 \<and> tier (hd (tenPointsOutput chainH3 plainStringify ''v'' (11/2) (1/2))) \<noteq> significant"
proof -
  have h: "4 \<le> length (cellToBoundary chainH3 (latLngToCell chainH3 (1/2) (11/2) 5))"
    "pointInRing (11/2, 1/2) (cellToBoundary chainH3 (latLngToCell chainH3 (1/2) (11/2) 5))"
    "distinct (gridDisk chainH3 (latLngToCell chainH3 (1/2) (11/2) 5) 1)"
    "length (gridDisk chainH3 (latLngToCell chainH3 (1/2) (11/2) 5) 1) < MAX_SPARSE_HEX_CELLS"
    unfolding chain_facts
    by (simp_all add: chain_point_inside MAX_SPARSE_HEX_CELLS_def)
       (simp add: unitSquare_def)
  from tenPoints_output [OF h, of plainStringify "''v''"]
  show ?thesis by (simp add: chain_facts)
qed

section \<open>Properties of the cell cap\<close>

lemma sparseRowsLoop_take:
  "sparseRowsLoop h res es p
   = (List.map_filter (sparseRow h res) (take (MAX_SPARSE_HEX_CELLS - p) es),
      MAX_SPARSE_HEX_CELLS - p < length es)"
proof (induction es arbitrary: p)
  case Nil
  then show ?case by (simp add: List.map_filter_simps)
next
  case (Cons e es)
  show ?case
  proof (cases "MAX_SPARSE_HEX_CELLS \<le> p")
    case True
    then show ?thesis by (simp add: List.map_filter_simps)
  next
    case False
    define d where "d = MAX_SPARSE_HEX_CELLS - Suc p"
    have d: "MAX_SPARSE_HEX_CELLS - p = Suc d" using False by (simp add: d_def)
    have ih: "sparseRowsLoop h res es (Suc p)
        = (List.map_filter (sparseRow h res) (take d es), d < length es)"
      using Cons.IH[of "Suc p"] by (simp add: d_def)
    show ?thesis using False
      by (simp add: ih d Let_def List.map_filter_simps split: option.splits)
  qed
qed

lemma sparseRowsOf_take:
  "sparseRowsOf h fs res
   = List.map_filter (sparseRow h res)
       (take MAX_SPARSE_HEX_CELLS (haloEstimates h (centerEstimatesOf h fs res)))"
  by (simp add: sparseRowsOf_def sparseRowsLoop_take)

lemma length_map_filter_le: "length (List.map_filter f xs) \<le> length xs"
  by (induction xs) (auto simp: List.map_filter_simps split: option.splits)

lemma build_length:
  "length (fc (fst (buildSparseHexesFromPois h fs res))) \<le> MAX_SPARSE_HEX_CELLS"
proof -
  have "length (sparseRowsOf h fs res)
        \<le> length (take MAX_SPARSE_HEX_CELLS (haloEstimates h (centerEstimatesOf h fs res)))"
    unfolding sparseRowsOf_take by (rule length_map_filter_le)
  also have "\<dots> \<le> MAX_SPARSE_HEX_CELLS" by simp
  finally show ?thesis by (simp add: build_fc)
qed

lemma build_warns:
  "snd (buildSparseHexesFromPois h fs res) \<noteq> []
   \<longleftrightarrow> MAX_SPARSE_HEX_CELLS < length (haloEstimates h (centerEstimatesOf h fs res))"
  by (simp add: build_console sparseRowsLoop_take)

lemma build_warning:
  "snd (buildSparseHexesFromPois h fs res) = []
 \<or> snd (buildSparseHexesFromPois h fs res)
     = [\<lparr>w_resolution = res, w_maxCells = MAX_SPARSE_HEX_CELLS,
         w_candidateCells = length (haloEstimates h (centerEstimatesOf h fs res)),
         w_emittedCells = length (fc (fst (buildSparseHexesFromPois h fs res)))\<rparr>]"
  by (simp add: buildSparseHexesFromPois_def Let_def)


lemma build_fst: "fst (buildSparseHexesFromPois h fs res) = resultOfRows res (sparseRowsOf h fs res)"
proof (cases "fs = [] \<or> centerEstimatesOf h fs res = []")
  case True
  then have "centerEstimatesOf h fs res = []" by (auto simp: centerEstimatesOf_def)
  then show ?thesis
    by (simp add: buildSparseHexesFromPois_def sparseRowsOf_def haloEstimates_def
        resultOfRows_def percentile95_def)
next
  case False
  then show ?thesis
    by (simp add: buildSparseHexesFromPois_def sparseRowsOf_def resultOfRows_def Let_def)
qed

lemma chainCell_inj: "chainCell a = chainCell b \<longleftrightarrow> a = b"
proof
  assume "chainCell a = chainCell b"
  then have "length (chainCell a) = length (chainCell b)" by simp
  then show "a = b" by (simp add: chainCell_def)
qed simp

lemma chain_latLng: "latLngToCell chainH3 lat (real k) r = chainCell k"
  by (simp add: chainH3_def)

lemma chain_disk:
  "gridDisk chainH3 (chainCell k) 1
   = [chainCell k, chainCell (Suc k)] @ (if k = 0 then [] else [chainCell (k - 1)])"
proof -
  have a: "chainCell k @ ''x'' = chainCell (Suc k)"
    by (simp add: chainCell_def replicate_append_same)
  have r: "butlast (replicate (Suc n) CHR ''x'') = replicate n CHR ''x''" for n
  proof -
    have "replicate (Suc n) CHR ''x'' = replicate n CHR ''x'' @ ''x''"
      by (simp add: replicate_append_same)
    then show ?thesis by (simp only: butlast_snoc)
  qed
  have b: "k \<noteq> 0 \<Longrightarrow> butlast (chainCell k) = chainCell (k - 1)"
    using r by (cases k) (simp_all add: chainCell_def del: replicate_Suc)
  show ?thesis using a b by (simp add: chainH3_def chainDisk_def chainCell_def)
qed

lemma chain_disk_Suc:
  "gridDisk chainH3 (chainCell k) (Suc 0)
   = [chainCell k, chainCell (Suc k)] @ (if k = 0 then [] else [chainCell (k - 1)])"
  using chain_disk[of k] by simp

lemma chain_addCenter:
  "addCenter chainH3 res (examplePoi (real k) lat) ce
   = AList.update (chainCell k) (getOr0 ce (chainCell k) + 1) ce"
  by (simp add: addCenter_def examplePoi_def Let_def chain_latLng)

lemma chainOnes_keys: "fst ` set (chainOnes m) = chainCell ` {0..<m}"
proof -
  have "fst ` set (chainOnes m) = (\<lambda>k. fst (chainCell k, 1::real)) ` set [0..<m]"
    unfolding chainOnes_def by (simp only: set_map image_image)
  then show ?thesis by simp
qed

lemma chainOnes_Suc: "chainOnes (Suc m) = chainOnes m @ [(chainCell m, 1)]"
  by (simp add: chainOnes_def)

lemma chainCell_notin_ones: "m \<le> j \<Longrightarrow> chainCell j \<notin> fst ` set (chainOnes m)"
  by (auto simp: chainOnes_keys chainCell_inj)

lemma chainOnes_map_of: "j < m \<Longrightarrow> map_of (chainOnes m) (chainCell j) = Some 1"
proof (induction m)
  case 0
  then show ?case by simp
next
  case (Suc m)
  show ?case
  proof (cases "j < m")
    case True
    then show ?thesis using Suc.IH by (simp add: chainOnes_Suc map_of_append map_add_def)
  next
    case False
    then have "j = m" using Suc.prems by simp
    moreover have "map_of (chainOnes m) (chainCell m) = None"
      using chainCell_notin_ones[of m m] by (simp add: map_of_eq_None_iff)
    ultimately show ?thesis by (simp add: chainOnes_Suc map_of_append map_add_def)
  qed
qed

lemma centers_chain_points:
  "centerEstimatesOf chainH3 (map (\<lambda>k. examplePoi (real k) lat) [0..<m]) res = chainOnes m"
proof (induction m)
  case 0
  then show ?case by (simp add: centerEstimatesOf_def chainOnes_def)
next
  case (Suc m)
  have "centerEstimatesOf chainH3 (map (\<lambda>k. examplePoi (real k) lat) [0..<Suc m]) res
        = addCenter chainH3 res (examplePoi (real m) lat)
            (centerEstimatesOf chainH3 (map (\<lambda>k. examplePoi (real k) lat) [0..<m]) res)"
    by (simp add: centerEstimatesOf_def)
  also have "\<dots> = AList.update (chainCell m) (getOr0 (chainOnes m) (chainCell m) + 1) (chainOnes m)"
    by (simp only: Suc.IH chain_addCenter)
  also have "\<dots> = chainOnes m @ [(chainCell m, 1)]"
    using chainCell_notin_ones[of m m] by (simp add: getOr0_absent update_absent)
  finally show ?case by (simp add: chainOnes_Suc)
qed

lemma update_last:
  "k \<notin> fst ` set xs \<Longrightarrow> AList.update k v (xs @ [(k, w)]) = xs @ [(k, v)]"
  by (induction xs) auto

lemma getOr0_last: "k \<notin> fst ` set xs \<Longrightarrow> getOr0 (xs @ [(k, w)]) k = w"
  by (simp add: getOr0_def map_of_append map_add_def map_of_eq_None_iff[symmetric] del: map_of_eq_None_iff)

lemma chain_addCenter_last:
  assumes "chainCell k \<notin> fst ` set xs"
  shows "addCenter chainH3 res (examplePoi (real k) lat) (xs @ [(chainCell k, w)])
         = xs @ [(chainCell k, w + 1)]"
  using assms by (simp add: chain_addCenter getOr0_last update_last)


lemma centers_fold_append:
  "centerEstimatesOf h (fs @ gs) res = fold (addCenter h res) gs (centerEstimatesOf h fs res)"
  by (simp add: centerEstimatesOf_def)

lemma centers_inputA:
  assumes "0 < m"
  shows "centerEstimatesOf chainH3 (chainInputA m) res = chainCentersA m"
proof -
  obtain n where n: "m = Suc n" using assms by (cases m) auto
  have k: "chainCell n \<notin> fst ` set (chainOnes n)" by (rule chainCell_notin_ones) simp
  have "centerEstimatesOf chainH3 (chainInputA m) res
        = fold (addCenter chainH3 res) (replicate 3 (examplePoi (real n) (1/2))) (chainOnes (Suc n))"
    by (simp only: chainInputA_def centers_fold_append centers_chain_points n diff_Suc_1)
  also have "\<dots> = chainOnes n @ [(chainCell n, 4)]"
    using k by (simp add: chainOnes_Suc numeral_3_eq_3 chain_addCenter_last del: fold_replicate)
  finally show ?thesis by (simp add: chainCentersA_def n)
qed

lemma chainCentersA_keys: "0 < m \<Longrightarrow> fst ` set (chainCentersA m) = chainCell ` {0..<m}"
proof -
  assume "0 < m"
  then obtain n where n: "m = Suc n" by (cases m) auto
  show ?thesis unfolding n chainCentersA_def
    by (simp add: chainOnes_keys image_Un atLeast0_lessThan_Suc Un_commute)
qed

lemma centers_inputB:
  assumes "0 < m"
  shows "centerEstimatesOf chainH3 (chainInputB m) res = chainCentersA m @ [(chainCell m, 1)]"
proof -
  have k: "chainCell m \<notin> fst ` set (chainCentersA m)"
    using chainCentersA_keys[OF assms] by (auto simp: chainCell_inj)
  have "centerEstimatesOf chainH3 (chainInputB m) res
        = addCenter chainH3 res (examplePoi (real m) (1/2)) (chainCentersA m)"
    by (simp add: chainInputB_def centers_fold_append centers_inputA[OF assms])
  then show ?thesis using k by (simp add: chain_addCenter getOr0_absent update_absent)
qed

lemma update_same: "map_of al k = Some v \<Longrightarrow> AList.update k v al = al"
  by (induction al) (auto split: if_splits)

lemma haloNeighbor_keeps:
  assumes "haloKeeps est cell halo n"
  shows "haloNeighbor cell halo n est = est"
proof (cases "n = cell")
  case True
  then show ?thesis by (simp add: haloNeighbor_def)
next
  case False
  then obtain w where w: "map_of est n = Some w" "halo \<le> w"
    using assms by (auto simp: haloKeeps_def split: option.splits)
  then have "max (getOr0 est n) halo = w" by (simp add: getOr0_def)
  then show ?thesis using False w(1) by (simp add: haloNeighbor_def Let_def update_same)
qed

lemma fold_haloNeighbor_keeps:
  "\<forall>n \<in> set ns. haloKeeps est cell halo n \<Longrightarrow> fold (haloNeighbor cell halo) ns est = est"
  by (induction ns) (simp_all add: haloNeighbor_keeps)

lemma haloCell_keeps:
  "\<forall>n \<in> set (gridDisk h (fst e) 1). haloKeeps est (fst e) (snd e * 0.25) n \<Longrightarrow>
   haloCell h e est = est"
  by (simp add: haloCell_def Let_def fold_haloNeighbor_keeps)

lemma fold_haloCell_keeps:
  "\<forall>e \<in> set cs. \<forall>n \<in> set (gridDisk h (fst e) 1). haloKeeps est (fst e) (snd e * 0.25) n \<Longrightarrow>
   fold (haloCell h) cs est = est"
  by (induction cs) (simp_all add: haloCell_keeps)


lemma map_of_prefix: "map_of xs k = Some v \<Longrightarrow> map_of (xs @ ys) k = Some v"
  by (simp add: map_of_append map_add_def)

lemma map_of_suffix:
  "k \<notin> fst ` set xs \<Longrightarrow> map_of (xs @ ys) k = map_of ys k"
  by (simp add: map_of_append map_add_def map_of_eq_None_iff[symmetric]
      del: map_of_eq_None_iff split: option.splits)

lemma chainCentersA_map_of:
  assumes "0 < m" "j < m"
  shows "map_of (chainCentersA m @ X) (chainCell j) = Some (if j = m - 1 then 4 else 1)"
proof (cases "j = m - 1")
  case True
  have "chainCell (m - 1) \<notin> fst ` set (chainOnes (m - 1))" by (rule chainCell_notin_ones) simp
  from map_of_suffix[OF this, of "[(chainCell (m - 1), 4)]"]
  have "map_of (chainCentersA m) (chainCell (m - 1)) = Some 4"
    by (simp add: chainCentersA_def)
  then show ?thesis using True by (simp add: map_of_prefix)
next
  case False
  then have "j < m - 1" using assms by simp
  then have "map_of (chainOnes (m - 1)) (chainCell j) = Some 1" by (rule chainOnes_map_of)
  then have "map_of (chainCentersA m) (chainCell j) = Some 1"
    by (simp add: chainCentersA_def map_of_prefix)
  then show ?thesis using False by (simp add: map_of_prefix)
qed

lemma chain_keeps:
  assumes "0 < m" "j < m" "halo \<le> 1"
  shows "haloKeeps (chainCentersA m @ X) cell halo (chainCell j)"
  using chainCentersA_map_of[OF assms(1,2), of X] assms(3)
  by (simp add: haloKeeps_def)

lemma chain_ones_keep:
  assumes "0 < m"
  shows "fold (haloCell chainH3) (chainOnes (m - 1)) (chainCentersA m @ X) = chainCentersA m @ X"
proof (rule fold_haloCell_keeps, intro ballI)
  fix e n
  assume e: "e \<in> set (chainOnes (m - 1))" and n: "n \<in> set (gridDisk chainH3 (fst e) 1)"
  from e obtain k where k: "k < m - 1" "e = (chainCell k, 1)"
    by (auto simp: chainOnes_def)
  from n have "n = chainCell k \<or> n = chainCell (Suc k) \<or> (k \<noteq> 0 \<and> n = chainCell (k - 1))"
    unfolding k by (simp add: chain_disk_Suc split: if_splits)
  then consider "n = chainCell k" | "n = chainCell (Suc k)" | "k \<noteq> 0" "n = chainCell (k - 1)"
    by blast
  then show "haloKeeps (chainCentersA m @ X) (fst e) (snd e * 0.25) n"
  proof cases
    case 1
    then show ?thesis by (simp add: haloKeeps_def k)
  next
    case 2
    have "Suc k < m" using k(1) by simp
    from chain_keeps[OF assms this, of "snd e * 0.25" X "fst e"] show ?thesis
      using 2 by (simp add: k)
  next
    case 3
    have "k - 1 < m" using k(1) by simp
    from chain_keeps[OF assms this, of "snd e * 0.25" X "fst e"] show ?thesis
      using 3 by (simp add: k)
  qed
qed

lemma chain_estimates_A:
  assumes "2 \<le> m"
  shows "haloEstimates chainH3 (chainCentersA m) = chainCentersA m @ [(chainCell m, 1)]"
proof -
  have m: "0 < m" "m - 1 \<noteq> 0" "m - 1 - 1 < m" using assms by simp_all
  let ?E = "chainCentersA m"
  have absent: "chainCell m \<notin> fst ` set ?E"
    using chainCentersA_keys[OF m(1)] by (auto simp: chainCell_inj)
  have ne: "chainCell m \<noteq> chainCell (m - 1)" using m(1) by (simp add: chainCell_inj)
  have "haloEstimates chainH3 ?E
        = haloCell chainH3 (chainCell (m - 1), 4) (fold (haloCell chainH3) (chainOnes (m - 1)) ?E)"
    by (simp add: haloEstimates_def chainCentersA_def)
  also have "\<dots> = haloCell chainH3 (chainCell (m - 1), 4) ?E"
    using chain_ones_keep[OF m(1), of "[]"] by simp
  also have "\<dots> = fold (haloNeighbor (chainCell (m - 1)) 1)
                      [chainCell (m - 1), chainCell m, chainCell (m - 1 - 1)] ?E"
    using m by (simp add: haloCell_def Let_def chain_disk_Suc)
  also have "\<dots> = haloNeighbor (chainCell (m - 1)) 1 (chainCell (m - 1 - 1))
                     (haloNeighbor (chainCell (m - 1)) 1 (chainCell m) ?E)"
    by (simp add: haloNeighbor_def)
  also have "haloNeighbor (chainCell (m - 1)) 1 (chainCell m) ?E = ?E @ [(chainCell m, 1)]"
    using absent ne by (simp add: haloNeighbor_def Let_def getOr0_absent update_absent)
  also have "haloNeighbor (chainCell (m - 1)) 1 (chainCell (m - 1 - 1)) (?E @ [(chainCell m, 1)])
             = ?E @ [(chainCell m, 1)]"
    by (rule haloNeighbor_keeps) (rule chain_keeps[OF m(1) m(3)], simp)
  finally show ?thesis .
qed

lemma chain_estimates_B:
  assumes "2 \<le> m"
  shows "haloEstimates chainH3 (chainCentersA m @ [(chainCell m, 1)])
         = chainCentersA m @ [(chainCell m, 1)] @ [(chainCell (Suc m), 1/4)]"
proof -
  have m: "0 < m" "m - 1 \<noteq> 0" "m - 1 - 1 < m" "m - 1 < m" "m \<noteq> 0" using assms by simp_all
  let ?E = "chainCentersA m @ [(chainCell m, 1)]"
  have keysE: "fst ` set ?E = chainCell ` {0..<Suc m}"
    using chainCentersA_keys[OF m(1)] by (simp add: atLeast0_lessThan_Suc)
  have absent: "chainCell (Suc m) \<notin> fst ` set ?E"
    unfolding keysE by (auto simp: chainCell_inj)
  have absentA: "chainCell m \<notin> fst ` set (chainCentersA m)"
    using chainCentersA_keys[OF m(1)] by (auto simp: chainCell_inj)
  have cm: "map_of ?E (chainCell m) = Some 1"
    using map_of_suffix[OF absentA, of "[(chainCell m, 1)]"] by simp
  have ne: "chainCell (Suc m) \<noteq> chainCell m" by (simp add: chainCell_inj)
  have "haloEstimates chainH3 ?E
        = haloCell chainH3 (chainCell m, 1)
            (haloCell chainH3 (chainCell (m - 1), 4)
               (fold (haloCell chainH3) (chainOnes (m - 1)) ?E))"
    by (simp add: haloEstimates_def chainCentersA_def)
  also have "fold (haloCell chainH3) (chainOnes (m - 1)) ?E = ?E"
    by (rule chain_ones_keep[OF m(1)])
  also have "haloCell chainH3 (chainCell (m - 1), 4) ?E = ?E"
  proof (rule haloCell_keeps, intro ballI)
    fix n assume "n \<in> set (gridDisk chainH3 (fst (chainCell (m - 1), 4::real)) 1)"
    then consider "n = chainCell (m - 1)" | "n = chainCell m" | "n = chainCell (m - 1 - 1)"
      using m by (auto simp: chain_disk_Suc)
    then show "haloKeeps ?E (fst (chainCell (m - 1), 4::real)) (snd (chainCell (m - 1), 4::real) * 0.25) n"
    proof cases
      case 1 then show ?thesis by (simp add: haloKeeps_def)
    next
      case 2 then show ?thesis using cm by (simp add: haloKeeps_def)
    next
      case 3
      from chain_keeps[OF m(1) m(3), of 1 "[(chainCell m, 1)]" "chainCell (m - 1)"]
      show ?thesis using 3 by simp
    qed
  qed
  also have "haloCell chainH3 (chainCell m, 1) ?E
        = fold (haloNeighbor (chainCell m) (1/4)) [chainCell m, chainCell (Suc m), chainCell (m - 1)] ?E"
    using m by (simp add: haloCell_def Let_def chain_disk_Suc)
  also have "\<dots> = haloNeighbor (chainCell m) (1/4) (chainCell (m - 1))
                     (haloNeighbor (chainCell m) (1/4) (chainCell (Suc m)) ?E)"
    by (simp add: haloNeighbor_def)
  also have "haloNeighbor (chainCell m) (1/4) (chainCell (Suc m)) ?E = ?E @ [(chainCell (Suc m), 1/4)]"
    using absent ne by (simp add: haloNeighbor_def Let_def getOr0_absent update_absent)
  also have "haloNeighbor (chainCell m) (1/4) (chainCell (m - 1)) (?E @ [(chainCell (Suc m), 1/4)])
             = ?E @ [(chainCell (Suc m), 1/4)]"
  proof (rule haloNeighbor_keeps)
    from chain_keeps[OF m(1) m(4), of "1/4" "[(chainCell m, 1)] @ [(chainCell (Suc m), 1/4)]" "chainCell m"]
    show "haloKeeps (?E @ [(chainCell (Suc m), 1/4)]) (chainCell m) (1/4) (chainCell (m - 1))"
      by simp
  qed
  finally show ?thesis by simp
qed


lemma take_length_append: "take (length xs) (xs @ ys) = take (length xs) xs"
  by simp

lemma chainCentersA_length: "0 < m \<Longrightarrow> length (chainCentersA m) = m"
  by (simp add: chainCentersA_def chainOnes_def)

lemma chain_rows_equal:
  assumes "2 \<le> m" "Suc m = MAX_SPARSE_HEX_CELLS"
  shows "sparseRowsOf chainH3 (chainInputB m) res = sparseRowsOf chainH3 (chainInputA m) res"
proof -
  have m: "0 < m" using assms(1) by simp
  let ?E = "chainCentersA m @ [(chainCell m, 1)]"
  have len: "length ?E = MAX_SPARSE_HEX_CELLS"
    using chainCentersA_length[OF m] assms(2) by simp
  have a: "haloEstimates chainH3 (centerEstimatesOf chainH3 (chainInputA m) res) = ?E"
    by (simp only: centers_inputA[OF m] chain_estimates_A[OF assms(1)])
  have b: "haloEstimates chainH3 (centerEstimatesOf chainH3 (chainInputB m) res)
           = ?E @ [(chainCell (Suc m), 1/4)]"
    by (simp only: centers_inputB[OF m] chain_estimates_B[OF assms(1)] append_assoc)
  have "take (length ?E) (?E @ [(chainCell (Suc m), 1/4)]) = take (length ?E) ?E"
    by (rule take_length_append)
  then have "take MAX_SPARSE_HEX_CELLS (?E @ [(chainCell (Suc m), 1/4)]) = take MAX_SPARSE_HEX_CELLS ?E"
    by (simp only: len)
  then show ?thesis by (simp only: sparseRowsOf_take a b)
qed

lemma chain_console:
  assumes "2 \<le> m" "Suc m = MAX_SPARSE_HEX_CELLS"
  shows "snd (buildSparseHexesFromPois chainH3 (chainInputA m) res) = []"
    and "snd (buildSparseHexesFromPois chainH3 (chainInputB m) res) \<noteq> []"
proof -
  have m: "0 < m" using assms(1) by simp
  let ?E = "chainCentersA m @ [(chainCell m, 1)]"
  have len: "length ?E = MAX_SPARSE_HEX_CELLS"
    using chainCentersA_length[OF m] assms(2) by simp
  have a: "haloEstimates chainH3 (centerEstimatesOf chainH3 (chainInputA m) res) = ?E"
    by (simp only: centers_inputA[OF m] chain_estimates_A[OF assms(1)])
  have b: "haloEstimates chainH3 (centerEstimatesOf chainH3 (chainInputB m) res)
           = ?E @ [(chainCell (Suc m), 1/4)]"
    by (simp only: centers_inputB[OF m] chain_estimates_B[OF assms(1)] append_assoc)
  have "\<not> snd (buildSparseHexesFromPois chainH3 (chainInputA m) res) \<noteq> []"
    unfolding build_warns a using len by simp
  then show "snd (buildSparseHexesFromPois chainH3 (chainInputA m) res) = []" by simp
  show "snd (buildSparseHexesFromPois chainH3 (chainInputB m) res) \<noteq> []"
    unfolding build_warns b using len by simp
qed

lemma chain_sparseRow: "0 < snd e \<Longrightarrow> sparseRow chainH3 res e \<noteq> None"
  by (simp add: sparseRow_def Let_def chainH3_def chainBoundary_def)

lemma map_filter_all: "\<forall>x \<in> set xs. f x \<noteq> None \<Longrightarrow> length (List.map_filter f xs) = length xs"
  by (induction xs) (auto simp: List.map_filter_simps)

lemma chain_rows_length:
  assumes "2 \<le> m" "Suc m = MAX_SPARSE_HEX_CELLS"
  shows "length (fc (fst (buildSparseHexesFromPois chainH3 (chainInputA m) res))) = MAX_SPARSE_HEX_CELLS"
proof -
  have m: "0 < m" using assms(1) by simp
  let ?E = "chainCentersA m @ [(chainCell m, 1)]"
  have len: "length ?E = MAX_SPARSE_HEX_CELLS"
    using chainCentersA_length[OF m] assms(2) by simp
  have a: "haloEstimates chainH3 (centerEstimatesOf chainH3 (chainInputA m) res) = ?E"
    by (simp only: centers_inputA[OF m] chain_estimates_A[OF assms(1)])
  have pos: "\<forall>e \<in> set ?E. 0 < snd e"
    by (auto simp: chainCentersA_def chainOnes_def)
  have "take MAX_SPARSE_HEX_CELLS ?E = ?E" using len by simp
  then have "sparseRowsOf chainH3 (chainInputA m) res = List.map_filter (sparseRow chainH3 res) ?E"
    by (simp only: sparseRowsOf_take a)
  moreover have "length (List.map_filter (sparseRow chainH3 res) ?E) = length ?E"
    by (rule map_filter_all) (use pos chain_sparseRow in blast)
  ultimately show ?thesis using len by (simp add: build_fc)
qed

text \<open>
  C5, as amended. For every input the build is a total function, so it terminates; it
  emits at most 120000 cells; the value it returns is computed from the first 120000
  candidate cells alone; and it writes a warning to the console, with the cap, the number
  of candidate cells and the number of emitted cells, exactly when there are more than
  120000 candidate cells. The returned value has the fields \<open>fc\<close> and \<open>p95\<close> and no flag.
\<close>

theorem cap_on_sparse_cells:
  "length (fc (fst (buildSparseHexesFromPois h fs res))) \<le> MAX_SPARSE_HEX_CELLS
 \<and> MAX_SPARSE_HEX_CELLS = 120000
 \<and> fst (buildSparseHexesFromPois h fs res)
     = resultOfRows res (List.map_filter (sparseRow h res)
         (take MAX_SPARSE_HEX_CELLS (haloEstimates h (centerEstimatesOf h fs res))))
 \<and> (snd (buildSparseHexesFromPois h fs res) \<noteq> []
      \<longleftrightarrow> MAX_SPARSE_HEX_CELLS < length (haloEstimates h (centerEstimatesOf h fs res)))
 \<and> (snd (buildSparseHexesFromPois h fs res) = []
    \<or> snd (buildSparseHexesFromPois h fs res)
        = [\<lparr>w_resolution = res, w_maxCells = MAX_SPARSE_HEX_CELLS,
            w_candidateCells = length (haloEstimates h (centerEstimatesOf h fs res)),
            w_emittedCells = length (fc (fst (buildSparseHexesFromPois h fs res)))\<rparr>])"
proof -
  have "fst (buildSparseHexesFromPois h fs res)
     = resultOfRows res (List.map_filter (sparseRow h res)
         (take MAX_SPARSE_HEX_CELLS (haloEstimates h (centerEstimatesOf h fs res))))"
    by (simp only: build_fst sparseRowsOf_take)
  then show ?thesis
    using build_length[of h fs res] build_warns[of h fs res] build_warning[of h fs res]
    by (simp add: MAX_SPARSE_HEX_CELLS_def)
qed

text \<open>
  The claim as stated fails: the cap is not signalled in what the caller receives. On the
  chain, the input A has exactly 120000 candidate cells and the input B, with one more
  point, has 120001. The build of B reaches the cap and warns on the console, the build of
  A does not, and both return the same value, of 120000 cells.
\<close>

theorem cap_on_sparse_cells_counterexample:
  "fst (buildSparseHexesFromPois chainH3 (chainInputB 119999) Res5)
     = fst (buildSparseHexesFromPois chainH3 (chainInputA 119999) Res5)
 \<and> length (fc (fst (buildSparseHexesFromPois chainH3 (chainInputA 119999) Res5))) = 120000
 \<and> snd (buildSparseHexesFromPois chainH3 (chainInputA 119999) Res5) = []
 \<and> snd (buildSparseHexesFromPois chainH3 (chainInputB 119999) Res5) \<noteq> []"
proof -
  have h: "2 \<le> (119999::nat)" "Suc 119999 = MAX_SPARSE_HEX_CELLS"
    by (simp_all add: MAX_SPARSE_HEX_CELLS_def)
  have "length (fc (fst (buildSparseHexesFromPois chainH3 (chainInputA 119999) Res5))) = 120000"
    using chain_rows_length[OF h, of Res5] by (simp add: MAX_SPARSE_HEX_CELLS_def)
  then show ?thesis
    using chain_rows_equal[OF h, of Res5] chain_console[OF h, of Res5]
    by (simp only: build_fst) simp
qed

section \<open>Properties of the level\<close>

lemma clamp_range: "lo \<le> hi \<Longrightarrow> lo \<le> clamp n lo hi \<and> clamp n lo hi \<le> hi"
  by (simp add: clamp_def)

lemma greedLevel_range:
  "0 \<le> greedLevelFromEstimated e r \<and> greedLevelFromEstimated e r \<le> 100"
  unfolding greedLevelFromEstimated_def Let_def by (rule clamp_range) simp

lemma Math_round_round: "Math_round x = round x"
  by (simp add: Math_round_def round_def)

lemma GREED_MAX_resNum: "GREED_MAX_BY_RES (resNum r) = Some (resolutionMax r)"
  by (cases r) (simp_all add: GREED_MAX_BY_RES_def)

lemma resolutionMax_pos: "0 < resolutionMax r"
  by (cases r) simp_all

lemma greedLevel_round:
  "greedLevelFromEstimated e (resNum r)
   = clamp (round (fl (fl (max 0 e / resolutionMax r) * 100))) 0 100"
  by (simp add: greedLevelFromEstimated_def GREED_MAX_resNum Math_round_round)

text \<open>The two roundings move the scaled ratio by at most \<open>2\<^sup>-\<^sup>4\<^sup>5\<close> while the ratio is at most 1.\<close>

lemma scaled_ratio_error:
  assumes "0 \<le> q" "q \<le> 1"
  shows "\<bar>fl (fl q * 100) - q * 100\<bar> \<le> 1 / 2 ^ 45"
proof -
  have "\<bar>q\<bar> \<le> pow2 0" using assms by (simp add: pow2_def)
  then have "\<bar>fl q - q\<bar> \<le> pow2 (0 - 53)" by (rule fl_abs_error) simp
  then have a: "\<bar>fl q - q\<bar> \<le> 1 / 2 ^ 53" by (simp add: pow2_def)
  have s: "(1 / 2 ^ 53 :: real) \<le> 1 / 4" by simp
  have f: "0 \<le> fl q" using assms(1) by (rule fl_nonneg)
  have "fl q \<le> 5 / 4" using a assms(2) s by linarith
  then have "\<bar>fl q * 100\<bar> \<le> pow2 7" using f by (simp add: pow2_def abs_if)
  then have "\<bar>fl (fl q * 100) - fl q * 100\<bar> \<le> pow2 (7 - 53)" by (rule fl_abs_error) simp
  then have b: "\<bar>fl (fl q * 100) - fl q * 100\<bar> \<le> 1 / 2 ^ 46" by (simp add: pow2_def)
  have "100 * \<bar>fl q - q\<bar> \<le> 100 * (1 / 2 ^ 53)" using a by (intro mult_left_mono) simp_all
  moreover have "\<bar>fl q * 100 - q * 100\<bar> = 100 * \<bar>fl q - q\<bar>" by (simp add: abs_if)
  moreover have "100 * (1 / 2 ^ 53) \<le> (1 / 2 ^ 46 :: real)" by simp
  ultimately have c: "\<bar>fl q * 100 - q * 100\<bar> \<le> 1 / 2 ^ 46" by linarith
  have "(1 / 2 ^ 46 :: real) + 1 / 2 ^ 46 = 1 / 2 ^ 45" by simp
  then show ?thesis using b c by linarith
qed

lemma scaled_ratio_large:
  assumes "1 \<le> q"
  shows "199 / 2 \<le> fl (fl q * 100)"
proof -
  have s: "(1 / 2 ^ 53 :: real) \<le> 1 / 1000" by simp
  have p0: "pow2 (- 1022) \<le> 1" using pow2_mono[of "- 1022" 0] by (simp add: pow2_def)
  have n1: "pow2 (- 1022) \<le> \<bar>q\<bar>" using assms p0 by linarith
  have "\<bar>fl q - q\<bar> \<le> \<bar>q\<bar> / 2 ^ 53" using n1 by (rule fl_rel_error)
  moreover have "\<bar>q\<bar> / 2 ^ 53 = q * (1 / 2 ^ 53)" using assms by simp
  moreover have "q * (1 / 2 ^ 53) \<le> q * (1 / 1000)" using assms s by (intro mult_left_mono) simp_all
  ultimately have "q - q * (1 / 1000) \<le> fl q" by linarith
  then have a1: "999 / 1000 \<le> fl q" using assms by simp
  then have p: "999 / 10 \<le> fl q * 100" by simp
  have n2: "pow2 (- 1022) \<le> \<bar>fl q * 100\<bar>" using p p0 by linarith
  let ?p = "fl q * 100"
  have "\<bar>fl ?p - ?p\<bar> \<le> \<bar>?p\<bar> / 2 ^ 53" using n2 by (rule fl_rel_error)
  moreover have "\<bar>?p\<bar> / 2 ^ 53 = ?p * (1 / 2 ^ 53)" using p by simp
  moreover have "?p * (1 / 2 ^ 53) \<le> ?p * (1 / 1000)" using p s by (intro mult_left_mono) simp_all
  ultimately have "?p - ?p * (1 / 1000) \<le> fl ?p" by linarith
  then show ?thesis using p by simp
qed

lemma round_near:
  fixes y t d :: real
  assumes "\<bar>y - t\<bar> \<le> d" "d < 1 / 2"
  shows "round y = round t \<or> \<bar>frac t - 1 / 2\<bar> \<le> d"
proof (cases "round y = round t")
  case True
  then show ?thesis by simp
next
  case False
  have "\<bar>frac t - 1 / 2\<bar> \<le> d"
  proof (rule ccontr)
    assume n: "\<not> \<bar>frac t - 1 / 2\<bar> \<le> d"
    have ft: "t = real_of_int \<lfloor>t\<rfloor> + frac t" by (simp add: frac_def)
    have f0: "0 \<le> frac t" "frac t < 1" by (simp_all add: frac_lt_1)
    have d0: "0 \<le> d" using assms(1) by linarith
    consider "frac t < 1 / 2 - d" | "1 / 2 + d < frac t" using n by linarith
    then have "round y = round t"
    proof cases
      case 1
      have "round t = \<lfloor>t\<rfloor>" unfolding round_def
        by (rule floor_unique) (use 1 ft f0 d0 in linarith)+
      moreover have "round y = \<lfloor>t\<rfloor>" unfolding round_def
        by (rule floor_unique) (use 1 ft f0 d0 assms in linarith)+
      ultimately show ?thesis by simp
    next
      case 2
      have e1: "real_of_int (\<lfloor>t\<rfloor> + 1) = real_of_int \<lfloor>t\<rfloor> + 1" by simp
      have "round t = \<lfloor>t\<rfloor> + 1" unfolding round_def
        by (rule floor_unique) (use 2 ft f0 d0 e1 in linarith)+
      moreover have "round y = \<lfloor>t\<rfloor> + 1" unfolding round_def
        by (rule floor_unique) (use 2 ft f0 d0 e1 assms in linarith)+
      ultimately show ?thesis by simp
    qed
    then show False using False by simp
  qed
  then show ?thesis by simp
qed

lemma round_within_half: "\<bar>real_of_int (round y) - (y::real)\<bar> \<le> 1 / 2"
  unfolding round_def by linarith

lemma round_clamped:
  fixes t :: real
  assumes "0 \<le> t" "t \<le> 100"
  shows "clamp (round t) 0 100 = round t"
proof -
  have "0 \<le> round t" using assms(1) unfolding round_def by linarith
  moreover have "round t \<le> 100" using assms(2) unfolding round_def by linarith
  ultimately show ?thesis by (simp add: clamp_def)
qed

lemma clamp_closer:
  assumes "0 \<le> t" "t \<le> 100"
  shows "\<bar>real_of_int (clamp n 0 100) - t\<bar> \<le> \<bar>real_of_int n - t\<bar>"
  using assms by (simp add: clamp_def max_def min_def abs_if)

text \<open>The level against the exact formula, for a normalisation constant \<open>m > 0\<close>.\<close>

lemma level_against_exact:
  assumes "0 < m"
  shows "\<bar>real_of_int (clamp (round (fl (fl (max 0 e / m) * 100))) 0 100) - clamp (e / m) 0 1 * 100\<bar>
           \<le> 1 / 2 + 1 / 2 ^ 45
       \<and> (clamp (round (fl (fl (max 0 e / m) * 100))) 0 100 = round (clamp (e / m) 0 1 * 100)
          \<or> \<bar>frac (clamp (e / m) 0 1 * 100) - 1 / 2\<bar> \<le> 1 / 2 ^ 45)"
proof -
  let ?y = "fl (fl (max 0 e / m) * 100)"
  let ?t = "clamp (e / m) 0 1 * 100"
  consider "e \<le> 0" | "0 < e" "e \<le> m" | "m < e" by linarith
  then show ?thesis
  proof cases
    case 1
    then have "e / m \<le> 0" using assms by (simp add: divide_nonpos_pos)
    then have t: "?t = 0" by (simp add: clamp_def)
    have "max 0 e = 0" using 1 by simp
    then have "?y = 0" by (simp add: fl_0)
    then show ?thesis unfolding t by (simp add: clamp_def)
  next
    case 2
    then have q: "0 \<le> e / m" "e / m \<le> 1" using assms by simp_all
    then have c: "clamp (e / m) 0 1 = e / m" by (simp add: clamp_def)
    have m: "max 0 e = e" using 2 by simp
    have t1: "0 \<le> e / m * 100" by (rule mult_nonneg_nonneg) (use q(1) in simp_all)
    have "e / m * 100 \<le> 1 * 100" by (rule mult_right_mono) (use q(2) in simp_all)
    then have t2: "e / m * 100 \<le> 100" by simp
    have t: "0 \<le> ?t" "?t \<le> 100" unfolding c by (rule t1, rule t2)
    have err: "\<bar>?y - ?t\<bar> \<le> 1 / 2 ^ 45"
      unfolding c m using scaled_ratio_error[OF q] by simp
    have "\<bar>real_of_int (clamp (round ?y) 0 100) - ?t\<bar> \<le> \<bar>real_of_int (round ?y) - ?t\<bar>"
      using t by (rule clamp_closer)
    also have "\<dots> \<le> 1 / 2 + 1 / 2 ^ 45"
      using round_within_half[of ?y] err by linarith
    finally have one: "\<bar>real_of_int (clamp (round ?y) 0 100) - ?t\<bar> \<le> 1 / 2 + 1 / 2 ^ 45" .
    have "round ?y = round ?t \<or> \<bar>frac ?t - 1 / 2\<bar> \<le> 1 / 2 ^ 45"
      using err by (rule round_near) simp
    then have two: "clamp (round ?y) 0 100 = round ?t \<or> \<bar>frac ?t - 1 / 2\<bar> \<le> 1 / 2 ^ 45"
      using round_clamped[OF t] by auto
    show ?thesis using one two by blast
  next
    case 3
    then have q: "1 \<le> e / m" using assms by simp
    then have t: "?t = 100" by (simp add: clamp_def)
    have m: "max 0 e = e" using 3 assms by simp
    have "199 / 2 \<le> ?y" unfolding m using q by (rule scaled_ratio_large)
    then have "real_of_int 100 \<le> ?y + 1 / 2" by simp
    then have "100 \<le> round ?y" unfolding round_def by (simp only: le_floor_iff)
    then have "clamp (round ?y) 0 100 = 100" by (simp add: clamp_def)
    then show ?thesis unfolding t by simp
  qed
qed

text \<open>
  C4, as amended. For every weighted estimate \<open>e\<close> and every resolution 5, 6 and 8, with
  \<open>resolutionMax\<close> 2500, 900 and 300, the level is an integer between 0 and 100 (at every
  resolution number). It is \<open>round\<close> of the scaled ratio clamped to 0..100, where the ratio
  \<open>max 0 e / resolutionMax\<close> and its product by 100 are each rounded to a double, and
  \<open>round\<close> is the nearest integer with a tie going up. It is within \<open>1/2 + 2\<^sup>-\<^sup>4\<^sup>5\<close> of the exact
  \<open>clamp (e / resolutionMax) 0 1 * 100\<close>, and it is \<open>round (clamp (e / resolutionMax) 0 1 * 100)\<close>
  unless that exact value lies within \<open>2\<^sup>-\<^sup>4\<^sup>5\<close> of the middle of two integers.
\<close>

theorem greedLevelFromEstimated_formula:
  "GREED_MAX_BY_RES (resNum r) = Some (resolutionMax r)
 \<and> 0 \<le> greedLevelFromEstimated e n \<and> greedLevelFromEstimated e n \<le> 100
 \<and> greedLevelFromEstimated e (resNum r)
     = clamp (round (fl (fl (max 0 e / resolutionMax r) * 100))) 0 100
 \<and> \<bar>real_of_int (greedLevelFromEstimated e (resNum r)) - clamp (e / resolutionMax r) 0 1 * 100\<bar>
     \<le> 1 / 2 + 1 / 2 ^ 45
 \<and> (greedLevelFromEstimated e (resNum r) = round (clamp (e / resolutionMax r) 0 1 * 100)
    \<or> \<bar>frac (clamp (e / resolutionMax r) 0 1 * 100) - 1 / 2\<bar> \<le> 1 / 2 ^ 45)"
  using GREED_MAX_resNum[of r] greedLevel_range[of e n]
    level_against_exact[OF resolutionMax_pos, of e r]
  unfolding greedLevel_round by blast

lemma fl_145: "fl (29 / 200) = 5224175567749775 / 2 ^ 55"
  using fl_eval[of "- 3" "29 / 200" 5224175567749775] by (simp add: pow2_def)

lemma fl_145_100: "fl (5224175567749775 / 2 ^ 55 * 100) = 8162774324609023 / 2 ^ 49"
  using fl_eval[of 3 "5224175567749775 / 2 ^ 55 * 100" 8162774324609023] by (simp add: pow2_def)

lemma level_362_5: "greedLevelFromEstimated (725 / 2) 5 = 14"
proof -
  have v: "fl (fl (29 / 200) * 100) = 8162774324609023 / 2 ^ 49"
    by (simp only: fl_145 fl_145_100)
  have "greedLevelFromEstimated (725 / 2) 5 = clamp (Math_round (fl (fl (29 / 200) * 100))) 0 100"
    by (simp add: greedLevelFromEstimated_def GREED_MAX_BY_RES_def)
  also have "\<dots> = 14" unfolding v by (simp add: Math_round_def clamp_def)
  finally show ?thesis .
qed

lemma fl_005: "fl (1 / 200) = 5764607523034235 / 2 ^ 60"
  using fl_eval[of "- 8" "1 / 200" 5764607523034235] by (simp add: pow2_def)

lemma fl_005_100: "fl (5764607523034235 / 2 ^ 60 * 100) = 1 / 2"
  using fl_eval[of "- 1" "5764607523034235 / 2 ^ 60 * 100" 4503599627370496] by (simp add: pow2_def)

lemma level_12_5: "greedLevelFromEstimated (25 / 2) 5 = 1"
proof -
  have v: "fl (fl (1 / 200) * 100) = 1 / 2"
    by (simp only: fl_005 fl_005_100)
  have "greedLevelFromEstimated (25 / 2) 5 = clamp (Math_round (fl (fl (1 / 200) * 100))) 0 100"
    by (simp add: greedLevelFromEstimated_def GREED_MAX_BY_RES_def)
  also have "\<dots> = 1" unfolding v by (simp add: Math_round_def clamp_def)
  finally show ?thesis .
qed

text \<open>
  Values of the level that follow from C4: 2499 at resolution 5 is 99.96 and gives 100,
  1000 at resolution 6 is clamped to 100, 100 at resolution 8 is 33.33 and gives 33, a
  negative estimate gives 0.
\<close>

theorem greedLevelFromEstimated_formula_witness:
  "greedLevelFromEstimated 2499 (resNum Res5) = 100
 \<and> greedLevelFromEstimated 1000 (resNum Res6) = 100
 \<and> greedLevelFromEstimated 100 (resNum Res8) = 33
 \<and> greedLevelFromEstimated (- 3) (resNum Res8) = 0"
proof -
  have s: "(1 / 2 ^ 45 :: real) \<le> 1 / 100" by simp
  have a: "\<bar>real_of_int (greedLevelFromEstimated 2499 (resNum Res5)) - clamp (2499 / resolutionMax Res5) 0 1 * 100\<bar>
           \<le> 1 / 2 + 1 / 2 ^ 45"
    and a': "greedLevelFromEstimated 2499 (resNum Res5) \<le> 100"
    using greedLevelFromEstimated_formula[of Res5 2499 "resNum Res5"] by blast+
  have "clamp (2499 / resolutionMax Res5) 0 1 * 100 = (9996 / 100 :: real)"
    by (simp add: clamp_def)
  then have "real_of_int (greedLevelFromEstimated 2499 (resNum Res5)) > 99" using a s by linarith
  then have 1: "greedLevelFromEstimated 2499 (resNum Res5) = 100" using a' by linarith
  have b: "\<bar>real_of_int (greedLevelFromEstimated 1000 (resNum Res6)) - clamp (1000 / resolutionMax Res6) 0 1 * 100\<bar>
           \<le> 1 / 2 + 1 / 2 ^ 45"
    and b': "greedLevelFromEstimated 1000 (resNum Res6) \<le> 100"
    using greedLevelFromEstimated_formula[of Res6 1000 "resNum Res6"] by blast+
  have "clamp (1000 / resolutionMax Res6) 0 1 * 100 = (100 :: real)"
    by (simp add: clamp_def)
  then have "real_of_int (greedLevelFromEstimated 1000 (resNum Res6)) > 99" using b s by linarith
  then have 2: "greedLevelFromEstimated 1000 (resNum Res6) = 100" using b' by linarith
  have c: "\<bar>real_of_int (greedLevelFromEstimated 100 (resNum Res8)) - clamp (100 / resolutionMax Res8) 0 1 * 100\<bar>
           \<le> 1 / 2 + 1 / 2 ^ 45"
    using greedLevelFromEstimated_formula[of Res8 100 "resNum Res8"] by blast
  have "clamp (100 / resolutionMax Res8) 0 1 * 100 = (100 / 3 :: real)"
    by (simp add: clamp_def)
  then have "real_of_int (greedLevelFromEstimated 100 (resNum Res8)) > 32"
    "real_of_int (greedLevelFromEstimated 100 (resNum Res8)) < 34" using c s by linarith+
  then have 3: "greedLevelFromEstimated 100 (resNum Res8) = 33" by linarith
  have d: "\<bar>real_of_int (greedLevelFromEstimated (- 3) (resNum Res8)) - clamp (- 3 / resolutionMax Res8) 0 1 * 100\<bar>
           \<le> 1 / 2 + 1 / 2 ^ 45"
    and d': "0 \<le> greedLevelFromEstimated (- 3) (resNum Res8)"
    using greedLevelFromEstimated_formula[of Res8 "- 3" "resNum Res8"] by blast+
  have "clamp (- 3 / resolutionMax Res8) 0 1 * 100 = (0 :: real)"
    by (simp add: clamp_def)
  then have "real_of_int (greedLevelFromEstimated (- 3) (resNum Res8)) < 1" using d s by linarith
  then have 4: "greedLevelFromEstimated (- 3) (resNum Res8) = 0" using d' by linarith
  show ?thesis using 1 2 3 4 by blast
qed

text \<open>
  The claim as stated fails at the estimate 362.5 of resolution 5 (the halo of a cell of
  estimate 1450): the exact ratio scaled by 100 is 14.5 and rounds to 15, but the ratio
  0.145 is not a double, its product by 100 is the double 14.499999999999998, and the level
  is 14. A tie that is met exactly goes up: the estimate 12.5 gives the double 0.5 and the
  level 1.
\<close>

theorem greedLevelFromEstimated_formula_counterexample:
  "greedLevelFromEstimated (725 / 2) (resNum Res5) = 14
 \<and> round (clamp ((725 / 2) / resolutionMax Res5) 0 1 * 100) = (15 :: int)
 \<and> greedLevelFromEstimated (25 / 2) (resNum Res5) = 1"
proof -
  have "round (clamp ((725 / 2) / resolutionMax Res5) 0 1 * 100) = (15 :: int)"
    by (simp add: clamp_def round_def)
  then show ?thesis using level_362_5 level_12_5 by simp
qed

end
